theory Spec2Isabelle
  imports Main
begin

section \<open>Data model\<close>

text \<open>
  The embedding follows \<^verbatim>\<open>src/tscat_gui/__init__.py\<close>. Entities live in the external
  store \<^verbatim>\<open>tscat\<close> and are addressed by UUID; an action is the triple
  \<^verbatim>\<open>(action: str, type, uuids)\<close> carried by \<^verbatim>\<open>AppState.state_changed\<close>.
\<close>

type_synonym uuid = string

datatype kind = Catalogue | Event

datatype exn = AttributeError | AssertionError | EntityNotFound | ValueError

text \<open>
  The result of running a handler: it returns, it raises (the state reached when the
  exception left the handler is kept, since the mutations done so far persist), or the
  nesting of notifications exceeded the fuel.
\<close>

datatype 's outcome = Returns 's | Raises exn 's | NoFuel

record entity =
  entity_type :: kind
  removed :: bool
  start :: int
  stop :: int
  author :: string
  events :: "uuid list"

type_synonym store = "uuid \<rightharpoonup> entity"

text \<open>A \<^verbatim>\<open>QModelIndex\<close>: invalid, or a cell (row, column) of a view's model.\<close>

datatype model_index = Invalid | Index nat nat

text \<open>
  The \<^verbatim>\<open>QUndoStack\<close> behind \<^verbatim>\<open>self.state.undo_stack()\<close>: the texts of its commands, the
  cursor \<^verbatim>\<open>index()\<close> and the clean mark \<^verbatim>\<open>cleanIndex()\<close>.
\<close>

record undo_stack =
  commands :: "string list"
  index :: int
  clean_index :: int

text \<open>
  The closure \<^verbatim>\<open>lambda state, _i=i, inc=index_inc: self.state.undo_stack().setIndex(_i + inc)\<close>:
  the default arguments are evaluated when the lambda is created, so the closure holds the
  two values.
\<close>

datatype closure = SetIndex_Lambda int int

record menu_action =
  action_text :: string
  enabled :: bool
  triggered :: "closure option"

datatype signal = Events_Selected | Catalogues_Selected | Events_Changed | Catalogues_Changed

datatype view_op = Model_Reset kind | Clear_Selection kind | Select kind model_index

text \<open>
  The collaborators wired together by \<^verbatim>\<open>__setup_ui\<close>. The models
  (\<^verbatim>\<open>EventModel\<close>, \<^verbatim>\<open>tscat_root()\<close>) and Qt's proxy models are not part of this file, so
  their functions are parameters. \<^verbatim>\<open>catalogue_sort_filter_model\<close> is an attribute of the
  widget that may be absent.
\<close>

record widgets =
  events_index_from_uuid :: "uuid \<Rightarrow> model_index"
  events_sort_mapFromSource :: "model_index \<Rightarrow> model_index"
  events_column_count :: nat
  events_uuid_role :: "model_index \<Rightarrow> uuid"
  catalogue_index_from_uuid :: "uuid \<Rightarrow> model_index"
  catalogue_sort_filter_model :: "(model_index \<Rightarrow> model_index) option"
  catalogue_uuid_role :: "model_index \<Rightarrow> uuid"

text \<open>
  The mutable state: the store, the undo stack and the log of \<^verbatim>\<open>state.updated\<close> calls
  (owned by \<^verbatim>\<open>AppState\<close>), the signals emitted to external observers, and the fields
  of \<^verbatim>\<open>TSCatGUI\<close>: the guard, the operations received by the models and views, the
  selection of each view, the enabled flag of each toolbar action and the menus of the two
  history buttons.
\<close>

record tscat_gui =
  store :: store
  undo :: undo_stack
  notified :: "(string \<times> kind \<times> uuid list) list"
  emitted :: "(signal \<times> uuid list) list"
  programmatic_select :: bool
  view_log :: "view_op list"
  catalogues_selection :: "model_index list"
  events_selection :: "model_index list"
  move_to_trash_action :: bool
  restore_from_trash_action :: bool
  delete_action :: bool
  new_event_action :: bool
  export_action :: bool
  undo_menu :: "menu_action list"
  redo_menu :: "menu_action list"

type_synonym notify = "tscat_gui \<Rightarrow> string \<Rightarrow> kind \<Rightarrow> uuid list \<Rightarrow> tscat_gui outcome"

section \<open>Construction\<close>

text \<open>
  \<^verbatim>\<open>__setup_ui\<close> (lines 211-398). The events view gets a sort proxy (lines 213-215);
  the construction of \<^verbatim>\<open>self.catalogue_sort_filter_model\<close> is commented out (lines
  253-257) and the catalogue view is given the catalogue model itself (line 259), so the
  attribute is never assigned.
\<close>

definition setup_ui ::
  "(uuid \<Rightarrow> model_index) \<Rightarrow> (model_index \<Rightarrow> model_index) \<Rightarrow> nat \<Rightarrow> (model_index \<Rightarrow> uuid) \<Rightarrow>
   (uuid \<Rightarrow> model_index) \<Rightarrow> (model_index \<Rightarrow> uuid) \<Rightarrow> widgets" where
  "setup_ui ev_index ev_map ev_columns ev_role cat_index cat_role =
     \<lparr>events_index_from_uuid = ev_index,
      events_sort_mapFromSource = ev_map,
      events_column_count = ev_columns,
      events_uuid_role = ev_role,
      catalogue_index_from_uuid = cat_index,
      catalogue_sort_filter_model = None,
      catalogue_uuid_role = cat_role\<rparr>"

text \<open>
  \<^verbatim>\<open>__init__\<close> (lines 46-58): the guard starts false, and \<^verbatim>\<open>__setup_ui\<close> disables
  the five entity-scoped actions (lines 307, 345, 353, 362, 391).
\<close>

definition init :: "store \<Rightarrow> tscat_gui" where
  "init st =
     \<lparr>store = st,
      undo = \<lparr>commands = [], index = 0, clean_index = 0\<rparr>,
      notified = [],
      emitted = [],
      programmatic_select = False,
      view_log = [],
      catalogues_selection = [],
      events_selection = [],
      move_to_trash_action = False,
      restore_from_trash_action = False,
      delete_action = False,
      new_event_action = False,
      export_action = False,
      undo_menu = [],
      redo_menu = []\<rparr>"

section \<open>External signals\<close>

text \<open>\<^verbatim>\<open>_external_signal_emission\<close> (lines 400-411).\<close>

definition external_signal_emission :: "tscat_gui \<Rightarrow> string \<Rightarrow> kind \<Rightarrow> uuid list \<Rightarrow> tscat_gui" where
  "external_signal_emission g action ty uuids =
     (if action = ''active_select'' then
        (if ty = Catalogue then g\<lparr>emitted := emitted g @ [(Catalogues_Selected, uuids)]\<rparr>
         else g\<lparr>emitted := emitted g @ [(Events_Selected, uuids)]\<rparr>)
      else if action = ''changed'' then
        (if ty = Catalogue then g\<lparr>emitted := emitted g @ [(Catalogues_Changed, uuids)]\<rparr>
         else g\<lparr>emitted := emitted g @ [(Events_Changed, uuids)]\<rparr>)
      else g)"

definition fired :: "tscat_gui \<Rightarrow> tscat_gui \<Rightarrow> (signal \<times> uuid list) list" where
  "fired g g' = drop (length (emitted g)) (emitted g')"

section \<open>Running handlers in sequence\<close>

fun obind :: "'s outcome \<Rightarrow> ('s \<Rightarrow> 's outcome) \<Rightarrow> 's outcome" where
  "obind (Returns s) f = f s"
| "obind (Raises e s) f = Raises e s"
| "obind NoFuel f = NoFuel"

fun raised :: "'s outcome \<Rightarrow> exn option" where
  "raised (Returns s) = None"
| "raised (Raises e s) = Some e"
| "raised NoFuel = None"

fun state_of :: "'s outcome \<Rightarrow> 's option" where
  "state_of (Returns s) = Some s"
| "state_of (Raises e s) = Some s"
| "state_of NoFuel = None"

section \<open>The views and their selection-changed handlers\<close>

text \<open>\<^verbatim>\<open>index.column()\<close>; Qt gives -1 for an invalid index.\<close>

fun column_of :: "model_index \<Rightarrow> int" where
  "column_of Invalid = - 1"
| "column_of (Index r c) = int c"

definition view_selection :: "kind \<Rightarrow> tscat_gui \<Rightarrow> model_index list" where
  "view_selection k g = (case k of Catalogue \<Rightarrow> catalogues_selection g | Event \<Rightarrow> events_selection g)"

definition set_view_selection :: "kind \<Rightarrow> model_index list \<Rightarrow> tscat_gui \<Rightarrow> tscat_gui" where
  "set_view_selection k sel g =
     (case k of Catalogue \<Rightarrow> g\<lparr>catalogues_selection := sel\<rparr> | Event \<Rightarrow> g\<lparr>events_selection := sel\<rparr>)"

text \<open>\<^verbatim>\<open>__current_event_changed\<close> (lines 113-116).\<close>

definition current_event_changed :: "notify \<Rightarrow> widgets \<Rightarrow> tscat_gui \<Rightarrow> tscat_gui outcome" where
  "current_event_changed upd w g =
     (if \<not> programmatic_select g then
        upd g ''active_select'' Event
          (map (events_uuid_role w) (filter (\<lambda>i. column_of i = 0) (events_selection g)))
      else Returns g)"

text \<open>\<^verbatim>\<open>__catalogue_selection_changed\<close> (lines 118-121).\<close>

definition catalogue_selection_changed :: "notify \<Rightarrow> widgets \<Rightarrow> tscat_gui \<Rightarrow> tscat_gui outcome" where
  "catalogue_selection_changed upd w g =
     (if \<not> programmatic_select g then
        upd g ''active_select'' Catalogue (map (catalogue_uuid_role w) (catalogues_selection g))
      else Returns g)"

text \<open>
  The signal \<^verbatim>\<open>selectionChanged\<close> of a view's selection model, connected with
  \<^verbatim>\<open>DirectConnection\<close> (lines 227-228 and 265-267): the handler runs inside the call that
  changes the selection.
\<close>

definition emit_selectionChanged :: "notify \<Rightarrow> widgets \<Rightarrow> kind \<Rightarrow> tscat_gui \<Rightarrow> tscat_gui outcome" where
  "emit_selectionChanged upd w k g =
     (case k of Catalogue \<Rightarrow> catalogue_selection_changed upd w g
              | Event \<Rightarrow> current_event_changed upd w g)"

text \<open>
  Qt's \<^verbatim>\<open>clearSelection()\<close> and \<^verbatim>\<open>selectionModel().select(index, flags)\<close>: the
  selection is changed and the signal is emitted when it did change. The catalogue view
  selects with \<^verbatim>\<open>Select\<close> (the cell), the events view with \<^verbatim>\<open>Select | Rows\<close>
  (every cell of the row); an invalid index selects nothing.
\<close>

definition clearSelection :: "notify \<Rightarrow> widgets \<Rightarrow> kind \<Rightarrow> tscat_gui \<Rightarrow> tscat_gui outcome" where
  "clearSelection upd w k g =
     (let g1 = g\<lparr>view_log := view_log g @ [Clear_Selection k]\<rparr>
      in if view_selection k g1 = [] then Returns g1
         else emit_selectionChanged upd w k (set_view_selection k [] g1))"

fun row_cells :: "nat \<Rightarrow> model_index \<Rightarrow> model_index list" where
  "row_cells n Invalid = []"
| "row_cells n (Index r c) = map (Index r) [0..<n]"

fun cell :: "model_index \<Rightarrow> model_index list" where
  "cell Invalid = []"
| "cell (Index r c) = [Index r c]"

definition select :: "notify \<Rightarrow> widgets \<Rightarrow> kind \<Rightarrow> model_index \<Rightarrow> tscat_gui \<Rightarrow> tscat_gui outcome" where
  "select upd w k idx g =
     (let g1 = g\<lparr>view_log := view_log g @ [Select k idx]\<rparr>;
          cells = (case k of Catalogue \<Rightarrow> cell idx | Event \<Rightarrow> row_cells (events_column_count w) idx);
          new = filter (\<lambda>c. c \<notin> set (view_selection k g1)) cells
      in if new = [] then Returns g1
         else emit_selectionChanged upd w k (set_view_selection k (view_selection k g1 @ new) g1))"

text \<open>
  A selection made by the user in a view: Qt replaces the view's selection and emits
  \<^verbatim>\<open>selectionChanged\<close>.
\<close>

definition native_selection_change ::
  "notify \<Rightarrow> widgets \<Rightarrow> kind \<Rightarrow> model_index list \<Rightarrow> tscat_gui \<Rightarrow> tscat_gui outcome" where
  "native_selection_change upd w k sel g =
     (if sel = view_selection k g then Returns g
      else emit_selectionChanged upd w k (set_view_selection k sel g))"

section \<open>The state-changed handler\<close>

text \<open>
  Modelled from the spec: \<^verbatim>\<open>get_entity_from_uuid_safe\<close> lives in \<^verbatim>\<open>utils/helper.py\<close>,
  which is not among the sources. The store interface is
  \<^verbatim>\<open>resolve(UUID) -> Entity | NotFound\<close>; the callers in this file use the result as an
  entity at once (\<^verbatim>\<open>entity.is_removed()\<close>, \<^verbatim>\<open>event.start = start\<close>) with no test and no
  \<^verbatim>\<open>try\<close>, so a lookup that yields no entity ends the caller with an exception.
\<close>

definition get_entity_from_uuid_safe :: "store \<Rightarrow> uuid \<Rightarrow> exn + entity" where
  "get_entity_from_uuid_safe st u = (case st u of None \<Rightarrow> Inl EntityNotFound | Some e \<Rightarrow> Inr e)"

definition is_removed :: "entity \<Rightarrow> bool" where
  "is_removed e = removed e"

text \<open>The loop of lines 71-73 and 83-86.\<close>

fun select_all :: "notify \<Rightarrow> widgets \<Rightarrow> kind \<Rightarrow> model_index list \<Rightarrow> tscat_gui \<Rightarrow> tscat_gui outcome" where
  "select_all upd w k [] g = Returns g"
| "select_all upd w k (i # is) g =
     (case select upd w k i g of
        Returns g' \<Rightarrow> select_all upd w k is g'
      | Raises e g' \<Rightarrow> Raises e g'
      | NoFuel \<Rightarrow> NoFuel)"

text \<open>The two literal lists of lines 62 and 64 (and 76).\<close>

definition handled_verbs :: "string list" where
  "handled_verbs = [''changed'', ''moved'', ''inserted'', ''deleted'', ''active_select'', ''passive_select'']"

definition select_verbs :: "string list" where
  "select_verbs = [''active_select'', ''passive_select'']"

text \<open>
  Lines 62-87 of \<^verbatim>\<open>__state_changed\<close>. On the catalogue branch line 68 reads
  \<^verbatim>\<open>self.catalogue_sort_filter_model\<close>; without the attribute that is an
  \<^verbatim>\<open>AttributeError\<close>, raised after the reset of line 65 and before the guard is set.
\<close>

definition sync_selection :: "notify \<Rightarrow> widgets \<Rightarrow> tscat_gui \<Rightarrow> string \<Rightarrow> kind \<Rightarrow> uuid list \<Rightarrow> tscat_gui outcome" where
  "sync_selection upd w g action ty uuids =
     (if action \<in> set handled_verbs then
        (if ty = Catalogue then
           (let g1 = (if action \<notin> set select_verbs
                      then g\<lparr>view_log := view_log g @ [Model_Reset Catalogue]\<rparr> else g);
                indexes = map (catalogue_index_from_uuid w) uuids
            in case catalogue_sort_filter_model w of
                 None \<Rightarrow> Raises AttributeError g1
               | Some mapFromSource \<Rightarrow>
                   obind (clearSelection upd w Catalogue (g1\<lparr>programmatic_select := True\<rparr>))
                     (\<lambda>g2. obind (select_all upd w Catalogue (map mapFromSource indexes) g2)
                       (\<lambda>g3. Returns (g3\<lparr>programmatic_select := False\<rparr>))))
         else
           (let g1 = (if action \<notin> set select_verbs
                      then g\<lparr>view_log := view_log g @ [Model_Reset Event]\<rparr> else g);
                indexes = map (events_index_from_uuid w) uuids
            in obind (clearSelection upd w Event (g1\<lparr>programmatic_select := True\<rparr>))
                 (\<lambda>g2. obind (select_all upd w Event (map (events_sort_mapFromSource w) indexes) g2)
                   (\<lambda>g3. Returns (g3\<lparr>programmatic_select := False\<rparr>)))))
      else Returns g)"

text \<open>The loop of lines 100-106: the two flags, or the exception of a failed lookup.\<close>

fun enable_loop :: "store \<Rightarrow> uuid list \<Rightarrow> bool \<times> bool \<Rightarrow> exn + (bool \<times> bool)" where
  "enable_loop st [] acc = Inr acc"
| "enable_loop st (u # us) (enable_restore, enable_move_to_trash) =
     (case get_entity_from_uuid_safe st u of
        Inl e \<Rightarrow> Inl e
      | Inr entity \<Rightarrow>
          (if is_removed entity then enable_loop st us (enable_restore \<or> True, enable_move_to_trash)
           else enable_loop st us (enable_restore, enable_move_to_trash \<or> True)))"

text \<open>Lines 89-111 of \<^verbatim>\<open>__state_changed\<close>.\<close>

definition update_enablement :: "tscat_gui \<Rightarrow> string \<Rightarrow> uuid list \<Rightarrow> tscat_gui outcome" where
  "update_enablement g action uuids =
     (if action = ''active_select'' then
        (let g1 = g\<lparr>move_to_trash_action := False, restore_from_trash_action := False,
                    delete_action := False, new_event_action := False, export_action := False\<rparr>
         in if uuids \<noteq> [] then
              (let g2 = (if length uuids = 1 then g1\<lparr>new_event_action := True\<rparr> else g1)
               in case enable_loop (store g2) uuids (False, False) of
                    Inl e \<Rightarrow> Raises e g2
                  | Inr (enable_restore, enable_move_to_trash) \<Rightarrow>
                      Returns (g2\<lparr>restore_from_trash_action := enable_restore,
                                  move_to_trash_action := enable_move_to_trash,
                                  delete_action := True, export_action := True\<rparr>))
            else Returns g1)
      else Returns g)"

text \<open>\<^verbatim>\<open>__state_changed\<close> (lines 60-111).\<close>

definition state_changed :: "notify \<Rightarrow> widgets \<Rightarrow> tscat_gui \<Rightarrow> string \<Rightarrow> kind \<Rightarrow> uuid list \<Rightarrow> tscat_gui outcome" where
  "state_changed upd w g action ty uuids =
     obind (sync_selection upd w g action ty uuids) (\<lambda>g'. update_enablement g' action uuids)"

section \<open>The broadcaster\<close>

text \<open>
  Modelled from the spec: \<^verbatim>\<open>AppState.updated\<close> lives in \<^verbatim>\<open>state.py\<close>, which is not among
  the sources. It is the broadcaster's \<^verbatim>\<open>notify(verb, kind, uuids)\<close>: synchronous, in-order
  delivery to the subscribers, here in the registration order of lines 57-58. Each call is
  recorded in \<^verbatim>\<open>notified\<close>. The fuel bounds the nesting of notifications: a handler that
  notifies from inside a notification uses the broadcaster with one unit less.
\<close>

primrec updated :: "nat \<Rightarrow> widgets \<Rightarrow> tscat_gui \<Rightarrow> string \<Rightarrow> kind \<Rightarrow> uuid list \<Rightarrow> tscat_gui outcome" where
  "updated 0 w g action ty uuids = NoFuel"
| "updated (Suc n) w g action ty uuids =
     state_changed (updated n w) w
       (external_signal_emission (g\<lparr>notified := notified g @ [(action, ty, uuids)]\<rparr>) action ty uuids)
       action ty uuids"

section \<open>History menus\<close>

text \<open>Python's \<^verbatim>\<open>range(start, stop, step)\<close> as a list; a zero step raises in Python and is not used.\<close>

definition py_range :: "int \<Rightarrow> int \<Rightarrow> int \<Rightarrow> int list" where
  "py_range from until step =
     (if 0 < step then map (\<lambda>k. from + int k * step) [0..<nat ((until - from + step - 1) div step)]
      else if step < 0 then map (\<lambda>k. from + int k * step) [0..<nat ((from - until - step - 1) div (- step))]
      else [])"

text \<open>The decimal text of an integer, as the f-strings of lines 151 and 157 print it.\<close>

fun str_nat :: "nat \<Rightarrow> string" where
  "str_nat n = (if n < 10 then [''0123456789'' ! n] else str_nat (n div 10) @ [''0123456789'' ! (n mod 10)])"

definition str_int :: "int \<Rightarrow> string" where
  "str_int i = (if i < 0 then CHR ''-'' # str_nat (nat (- i)) else str_nat (nat i))"

definition count :: "undo_stack \<Rightarrow> int" where
  "count s = int (length (commands s))"

text \<open>\<^verbatim>\<open>QUndoStack.command(i)\<close>: no command outside the stack.\<close>

definition command :: "undo_stack \<Rightarrow> int \<Rightarrow> string option" where
  "command s i = (if 0 \<le> i \<and> i < count s then Some (commands s ! nat i) else None)"

datatype toolbutton = Undo_Button | Redo_Button

definition setMenu :: "toolbutton \<Rightarrow> menu_action list \<Rightarrow> tscat_gui \<Rightarrow> tscat_gui" where
  "setMenu b menu g = (case b of Undo_Button \<Rightarrow> g\<lparr>undo_menu := menu\<rparr> | Redo_Button \<Rightarrow> g\<lparr>redo_menu := menu\<rparr>)"

text \<open>The loop of lines 131-135; \<^verbatim>\<open>command(i).text()\<close> raises when there is no command.\<close>

fun menu_actions :: "undo_stack \<Rightarrow> int list \<Rightarrow> int \<Rightarrow> exn + menu_action list" where
  "menu_actions s [] index_inc = Inr []"
| "menu_actions s (i # is) index_inc =
     (case command s i of
        None \<Rightarrow> Inl AttributeError
      | Some t \<Rightarrow>
          (case menu_actions s is index_inc of
             Inl e \<Rightarrow> Inl e
           | Inr menu \<Rightarrow>
               Inr (\<lparr>action_text = t, enabled = True, triggered = Some (SetIndex_Lambda i index_inc)\<rparr> # menu)))"

text \<open>\<^verbatim>\<open>__create_undo_redo_action_menu_on_toolbutton\<close> (lines 123-142).\<close>

definition create_undo_redo_action_menu_on_toolbutton ::
  "int list \<Rightarrow> toolbutton \<Rightarrow> int \<Rightarrow> bool \<Rightarrow> string \<Rightarrow> tscat_gui \<Rightarrow> tscat_gui outcome" where
  "create_undo_redo_action_menu_on_toolbutton index_range button index_inc more_items more_items_text g =
     (case menu_actions (undo g) index_range index_inc of
        Inl e \<Rightarrow> Raises e g
      | Inr menu \<Rightarrow>
          Returns (setMenu button
            (if more_items then menu @ [\<lparr>action_text = more_items_text, enabled = False, triggered = None\<rparr>]
             else menu) g))"

text \<open>\<^verbatim>\<open>__undo_redo_index_changed\<close> (lines 144-157).\<close>

definition undo_redo_index_changed :: "int \<Rightarrow> tscat_gui \<Rightarrow> tscat_gui outcome" where
  "undo_redo_index_changed idx g =
     (let max_action_count = 10;
          first_index = max 0 (idx - max_action_count)
      in obind (create_undo_redo_action_menu_on_toolbutton
                  (py_range (idx - 1) (first_index - 1) (- 1)) Undo_Button 0 (first_index \<noteq> 0)
                  (str_int first_index @ '' more undo actions'') g)
           (\<lambda>g1. let last_index = min (count (undo g1)) (idx + max_action_count)
                 in create_undo_redo_action_menu_on_toolbutton
                      (py_range idx last_index 1) Redo_Button 1 (last_index \<noteq> count (undo g1))
                      (str_int (count (undo g1) - last_index) @ '' more redo actions'') g1))"

text \<open>
  Qt's \<^verbatim>\<open>QUndoStack.setIndex\<close>, reduced to the cursor: the index is clamped to the stack and,
  when it moves, \<^verbatim>\<open>indexChanged\<close> runs the handler connected at line 337. The store
  mutations of the commands live in \<^verbatim>\<open>undo.py\<close> and are outside this file.
\<close>

definition setIndex :: "int \<Rightarrow> tscat_gui \<Rightarrow> tscat_gui outcome" where
  "setIndex idx g =
     (let i = (if idx < 0 then 0 else if count (undo g) < idx then count (undo g) else idx)
      in if i = index (undo g) then Returns g
         else undo_redo_index_changed i (g\<lparr>undo := (undo g)\<lparr>index := i\<rparr>\<rparr>))"

text \<open>Triggering a menu entry calls the closure connected at lines 133-134; the indicator entry has none.\<close>

fun call_closure :: "closure \<Rightarrow> tscat_gui \<Rightarrow> tscat_gui outcome" where
  "call_closure (SetIndex_Lambda i inc) g = setIndex (i + inc) g"

definition trigger :: "menu_action \<Rightarrow> tscat_gui \<Rightarrow> tscat_gui outcome" where
  "trigger a g = (case triggered a of None \<Rightarrow> Returns g | Some c \<Rightarrow> call_closure c g)"

section \<open>Public methods\<close>

text \<open>
  The store \<^verbatim>\<open>tscat\<close> is an external library. Its events keep their time range
  ordered: assigning \<^verbatim>\<open>event.start\<close> is refused with a \<^verbatim>\<open>ValueError\<close> when the new
  start lies after the event's stop, assigning \<^verbatim>\<open>event.stop\<close> when the new stop lies
  before the event's start, and creating an event when its start lies after its stop. An
  assignment that is accepted takes effect at once.
\<close>

definition set_start :: "entity \<Rightarrow> int \<Rightarrow> exn + entity" where
  "set_start e v = (if stop e < v then Inl ValueError else Inr (e\<lparr>start := v\<rparr>))"

definition set_stop :: "entity \<Rightarrow> int \<Rightarrow> exn + entity" where
  "set_stop e v = (if v < start e then Inl ValueError else Inr (e\<lparr>stop := v\<rparr>))"

definition session_create_event :: "int \<Rightarrow> int \<Rightarrow> string \<Rightarrow> exn + entity" where
  "session_create_event start' stop' author' =
     (if stop' < start' then Inl ValueError
      else Inr \<lparr>entity_type = Event, removed = False, start = start', stop = stop',
                author = author', events = []\<rparr>)"

text \<open>
  \<^verbatim>\<open>update_event_range\<close> (lines 413-417): the two assignments of lines 415 and 416 in
  turn, each of which may raise, then the broadcast.
\<close>

definition update_event_range :: "nat \<Rightarrow> widgets \<Rightarrow> uuid \<Rightarrow> int \<Rightarrow> int \<Rightarrow> tscat_gui \<Rightarrow> tscat_gui outcome" where
  "update_event_range n w u start' stop' g =
     (case get_entity_from_uuid_safe (store g) u of
        Inl e \<Rightarrow> Raises e g
      | Inr event \<Rightarrow>
          (case set_start event start' of
             Inl e \<Rightarrow> Raises e g
           | Inr event1 \<Rightarrow>
               (let g1 = g\<lparr>store := (store g)(u \<mapsto> event1)\<rparr>
                in case set_stop event1 stop' of
                     Inl e \<Rightarrow> Raises e g1
                   | Inr event2 \<Rightarrow>
                       updated n w (g1\<lparr>store := (store g1)(u \<mapsto> event2)\<rparr>) ''changed'' Event [u])))"

text \<open>
  \<^verbatim>\<open>create_event\<close> (lines 419-428). The UUID of the new event is chosen by the store and
  is a parameter; the returned event is the entity stored under it.
\<close>

definition create_event ::
  "nat \<Rightarrow> widgets \<Rightarrow> int \<Rightarrow> int \<Rightarrow> string \<Rightarrow> uuid \<Rightarrow> uuid \<Rightarrow> tscat_gui \<Rightarrow> tscat_gui outcome" where
  "create_event n w start' stop' author' catalogue_uuid new_uuid g =
     (case get_entity_from_uuid_safe (store g) catalogue_uuid of
        Inl e \<Rightarrow> Raises e g
      | Inr catalogue \<Rightarrow>
          (if entity_type catalogue \<noteq> Catalogue then Raises AssertionError g
           else
             (case session_create_event start' stop' author' of
                Inl e \<Rightarrow> Raises e g
              | Inr event \<Rightarrow>
                  (let st = (store g)(new_uuid \<mapsto> event);
                       st' = st(catalogue_uuid \<mapsto> catalogue\<lparr>events := events catalogue @ [new_uuid]\<rparr>)
                   in updated n w (g\<lparr>store := st'\<rparr>) ''inserted'' Event [new_uuid]))))"

text \<open>\<^verbatim>\<open>move_to_trash\<close> (lines 430-433).\<close>

definition move_to_trash :: "nat \<Rightarrow> widgets \<Rightarrow> uuid \<Rightarrow> tscat_gui \<Rightarrow> tscat_gui outcome" where
  "move_to_trash n w u g =
     (case get_entity_from_uuid_safe (store g) u of
        Inl e \<Rightarrow> Raises e g
      | Inr entity \<Rightarrow>
          updated n w (g\<lparr>store := (store g)(u \<mapsto> entity\<lparr>removed := True\<rparr>)\<rparr>)
            ''moved'' (entity_type entity) [u])"

section \<open>Properties used to state the results\<close>

text \<open>The UUIDs of a view's selection, as its handler reads them (lines 115 and 120).\<close>

definition selection_uuids :: "widgets \<Rightarrow> kind \<Rightarrow> tscat_gui \<Rightarrow> uuid list" where
  "selection_uuids w k g =
     (case k of
        Catalogue \<Rightarrow> map (catalogue_uuid_role w) (catalogues_selection g)
      | Event \<Rightarrow> map (events_uuid_role w) (filter (\<lambda>i. column_of i = 0) (events_selection g)))"

text \<open>Two states agree on everything but the guard, the view operations and the view selections.\<close>

definition same_outside_views :: "tscat_gui \<Rightarrow> tscat_gui \<Rightarrow> bool" where
  "same_outside_views g g' \<longleftrightarrow>
     store g' = store g \<and> undo g' = undo g \<and> notified g' = notified g \<and> emitted g' = emitted g \<and>
     move_to_trash_action g' = move_to_trash_action g \<and>
     restore_from_trash_action g' = restore_from_trash_action g \<and>
     delete_action g' = delete_action g \<and>
     new_event_action g' = new_event_action g \<and>
     export_action g' = export_action g \<and>
     undo_menu g' = undo_menu g \<and> redo_menu g' = redo_menu g"

text \<open>The five enablement flags of two states are equal.\<close>

definition same_enablement :: "tscat_gui \<Rightarrow> tscat_gui \<Rightarrow> bool" where
  "same_enablement g g' \<longleftrightarrow>
     move_to_trash_action g' = move_to_trash_action g \<and>
     restore_from_trash_action g' = restore_from_trash_action g \<and>
     delete_action g' = delete_action g \<and>
     new_event_action g' = new_event_action g \<and>
     export_action g' = export_action g"

text \<open>The model reset of lines 64-65 and 76-77, as a list of view operations.\<close>

definition resets :: "string \<Rightarrow> kind \<Rightarrow> view_op list" where
  "resets action ty = (if action \<notin> set select_verbs then [Model_Reset ty] else [])"

text \<open>The indexes that lines 67-68 and 79-80 compute for a UUID list, one per UUID.\<close>

definition sync_indexes :: "widgets \<Rightarrow> kind \<Rightarrow> uuid list \<Rightarrow> model_index list" where
  "sync_indexes w ty uuids =
     (case ty of
        Event \<Rightarrow> map (events_sort_mapFromSource w) (map (events_index_from_uuid w) uuids)
      | Catalogue \<Rightarrow>
          (case catalogue_sort_filter_model w of
             None \<Rightarrow> []
           | Some mapFromSource \<Rightarrow> map mapFromSource (map (catalogue_index_from_uuid w) uuids)))"

text \<open>
  The cells that one \<^verbatim>\<open>select\<close> call asks a view to select, and the selection of a
  view after selecting a list of indexes in order.
\<close>

definition cells_of :: "widgets \<Rightarrow> kind \<Rightarrow> model_index \<Rightarrow> model_index list" where
  "cells_of w k idx = (case k of Catalogue \<Rightarrow> cell idx | Event \<Rightarrow> row_cells (events_column_count w) idx)"

fun selected_after :: "widgets \<Rightarrow> kind \<Rightarrow> model_index list \<Rightarrow> model_index list \<Rightarrow> model_index list" where
  "selected_after w k sel [] = sel"
| "selected_after w k sel (i # is) =
     selected_after w k (sel @ filter (\<lambda>c. c \<notin> set sel) (cells_of w k i)) is"

text \<open>A small store and the collaborators of a window over it, for concrete runs.\<close>

definition example_store :: store where
  "example_store =
     [''A'' \<mapsto> \<lparr>entity_type = Catalogue, removed = False, start = 0, stop = 0, author = ''p'', events = [''e1'', ''e2'']\<rparr>,
      ''e1'' \<mapsto> \<lparr>entity_type = Event, removed = False, start = 10, stop = 20, author = ''p'', events = []\<rparr>,
      ''e2'' \<mapsto> \<lparr>entity_type = Event, removed = True, start = 30, stop = 40, author = ''p'', events = []\<rparr>]"

definition example_events_index :: "uuid \<Rightarrow> model_index" where
  "example_events_index u = (if u = ''e1'' then Index 0 0 else if u = ''e2'' then Index 1 0 else Invalid)"

definition example_catalogue_index :: "uuid \<Rightarrow> model_index" where
  "example_catalogue_index u = (if u = ''A'' then Index 0 0 else Invalid)"

fun example_events_role :: "model_index \<Rightarrow> uuid" where
  "example_events_role Invalid = []"
| "example_events_role (Index r c) = (if r = 0 then ''e1'' else ''e2'')"

fun example_catalogue_role :: "model_index \<Rightarrow> uuid" where
  "example_catalogue_role Invalid = []"
| "example_catalogue_role (Index r c) = ''A''"

definition example_widgets :: widgets where
  "example_widgets =
     setup_ui example_events_index id 2 example_events_role example_catalogue_index example_catalogue_role"

definition example_history :: "tscat_gui" where
  "example_history =
     (init example_store)\<lparr>undo := \<lparr>commands = [''c0'', ''c1'', ''c2'', ''c3'', ''c4'', ''c5'', ''c6'', ''c7'', ''c8'', ''c9'',
        ''c10'', ''c11'', ''c12'', ''c13'', ''c14'', ''c15'', ''c16'', ''c17'', ''c18'', ''c19'', ''c20'', ''c21'', ''c22'',
        ''c23'', ''c24''], index = 12, clean_index = 0\<rparr>\<rparr>"

section \<open>Programmatic selection runs under the guard\<close>

lemma same_outside_views_refl: "same_outside_views g g"
  by (simp add: same_outside_views_def)

lemma same_outside_views_trans:
  "same_outside_views g g' \<Longrightarrow> same_outside_views g' g'' \<Longrightarrow> same_outside_views g g''"
  by (simp add: same_outside_views_def)

lemma emit_guarded: "programmatic_select g \<Longrightarrow> emit_selectionChanged upd w k g = Returns g"
  by (cases k) (simp_all add: emit_selectionChanged_def current_event_changed_def catalogue_selection_changed_def)

lemma emit_unguarded:
  "\<not> programmatic_select g \<Longrightarrow>
   emit_selectionChanged upd w k g = upd g ''active_select'' k (selection_uuids w k g)"
  by (cases k)
     (simp_all add: emit_selectionChanged_def current_event_changed_def catalogue_selection_changed_def
        selection_uuids_def)

lemma set_view_selection_fields:
  "programmatic_select (set_view_selection k sel g) = programmatic_select g"
  "view_log (set_view_selection k sel g) = view_log g"
  "same_outside_views g (set_view_selection k sel g)"
  "view_selection k (set_view_selection k sel g) = sel"
  by (cases k; simp add: set_view_selection_def same_outside_views_def view_selection_def)+

lemma set_view_selection_notified:
  "notified (set_view_selection k sel g) = notified g"
  by (cases k) (simp_all add: set_view_selection_def)

lemma clearSelection_guarded:
  assumes "programmatic_select g"
  shows "\<exists>g'. clearSelection upd w k g = Returns g' \<and> programmatic_select g' \<and> same_outside_views g g'
           \<and> view_log g' = view_log g @ [Clear_Selection k] \<and> view_selection k g' = []"
proof -
  let ?g1 = "g\<lparr>view_log := view_log g @ [Clear_Selection k]\<rparr>"
  have g1: "programmatic_select ?g1" "same_outside_views g ?g1"
    using assms by (simp_all add: same_outside_views_def)
  show ?thesis
  proof (cases "view_selection k ?g1 = []")
    case True
    then show ?thesis using g1 by (simp add: clearSelection_def)
  next
    case False
    have "clearSelection upd w k g = Returns (set_view_selection k [] ?g1)"
      using False g1 by (simp add: clearSelection_def emit_guarded set_view_selection_fields)
    then show ?thesis
      using g1 by (simp add: set_view_selection_fields same_outside_views_trans [OF g1(2)])
  qed
qed

lemma select_guarded:
  assumes "programmatic_select g"
  shows "\<exists>g'. select upd w k i g = Returns g' \<and> programmatic_select g' \<and> same_outside_views g g'
           \<and> view_log g' = view_log g @ [Select k i]"
proof -
  let ?g1 = "g\<lparr>view_log := view_log g @ [Select k i]\<rparr>"
  have g1: "programmatic_select ?g1" "same_outside_views g ?g1"
    using assms by (simp_all add: same_outside_views_def)
  obtain new where new: "select upd w k i g =
      (if new = [] then Returns ?g1
       else emit_selectionChanged upd w k (set_view_selection k (view_selection k ?g1 @ new) ?g1))"
    by (simp add: select_def Let_def)
  show ?thesis
  proof (cases "new = []")
    case True
    then show ?thesis using g1 new by simp
  next
    case False
    then have "select upd w k i g = Returns (set_view_selection k (view_selection k ?g1 @ new) ?g1)"
      using new g1 by (simp add: emit_guarded set_view_selection_fields)
    then show ?thesis
      using g1 by (simp add: set_view_selection_fields same_outside_views_trans [OF g1(2)])
  qed
qed

lemma select_all_guarded:
  "programmatic_select g \<Longrightarrow>
   \<exists>g'. select_all upd w k is g = Returns g' \<and> programmatic_select g' \<and> same_outside_views g g'
        \<and> view_log g' = view_log g @ map (Select k) is"
proof (induction "is" arbitrary: g)
  case Nil
  then show ?case by (simp add: same_outside_views_refl)
next
  case (Cons i "is")
  from select_guarded [OF Cons.prems, of upd w k i]
  obtain g1 where g1: "select upd w k i g = Returns g1" "programmatic_select g1"
      "same_outside_views g g1" "view_log g1 = view_log g @ [Select k i]"
    by blast
  from Cons.IH [OF g1(2)]
  obtain g2 where g2: "select_all upd w k is g1 = Returns g2" "programmatic_select g2"
      "same_outside_views g1 g2" "view_log g2 = view_log g1 @ map (Select k) is"
    by blast
  show ?case
    using g1 g2 same_outside_views_trans [OF g1(3) g2(3)] by simp
qed

lemma clearSelection_callback:
  "programmatic_select g \<Longrightarrow> clearSelection upd w k g = clearSelection upd' w k g"
  by (simp add: clearSelection_def Let_def emit_guarded set_view_selection_fields)

lemma select_callback:
  "programmatic_select g \<Longrightarrow> select upd w k i g = select upd' w k i g"
  by (simp add: select_def Let_def emit_guarded set_view_selection_fields)

lemma select_all_callback:
  "programmatic_select g \<Longrightarrow> select_all upd w k is g = select_all upd' w k is g"
proof (induction "is" arbitrary: g)
  case Nil
  then show ?case by simp
next
  case (Cons i "is")
  from select_guarded [OF Cons.prems, of upd' w k i]
  obtain g1 where g1: "select upd' w k i g = Returns g1" "programmatic_select g1"
    by blast
  have "select upd w k i g = Returns g1"
    using g1(1) select_callback [OF Cons.prems, of upd w k i upd'] by simp
  then show ?case
    using g1 Cons.IH [OF g1(2)] by simp
qed

lemma guarded_resync:
  assumes "programmatic_select g"
  shows "\<exists>g'. obind (clearSelection upd w k g)
                 (\<lambda>g2. obind (select_all upd w k is g2) (\<lambda>g3. Returns (g3\<lparr>programmatic_select := False\<rparr>)))
               = Returns g'
            \<and> \<not> programmatic_select g' \<and> same_outside_views g g'
            \<and> view_log g' = view_log g @ Clear_Selection k # map (Select k) is"
proof -
  from clearSelection_guarded [OF assms, of upd w k]
  obtain g2 where g2: "clearSelection upd w k g = Returns g2" "programmatic_select g2"
      "same_outside_views g g2" "view_log g2 = view_log g @ [Clear_Selection k]"
    by blast
  from select_all_guarded [OF g2(2), of upd w k "is"]
  obtain g3 where g3: "select_all upd w k is g2 = Returns g3" "programmatic_select g3"
      "same_outside_views g2 g3" "view_log g3 = view_log g2 @ map (Select k) is"
    by blast
  have "same_outside_views g (g3\<lparr>programmatic_select := False\<rparr>)"
    using same_outside_views_trans [OF g2(3) g3(3)] by (simp add: same_outside_views_def)
  then show ?thesis
    using g2 g3 by simp
qed

lemma guarded_resync_callback:
  assumes "programmatic_select g"
  shows "obind (clearSelection upd w k g)
           (\<lambda>g2. obind (select_all upd w k is g2) (\<lambda>g3. Returns (g3\<lparr>programmatic_select := False\<rparr>)))
       = obind (clearSelection upd' w k g)
           (\<lambda>g2. obind (select_all upd' w k is g2) (\<lambda>g3. Returns (g3\<lparr>programmatic_select := False\<rparr>)))"
proof -
  from clearSelection_guarded [OF assms, of upd' w k]
  obtain g2 where g2: "clearSelection upd' w k g = Returns g2" "programmatic_select g2"
    by blast
  have "clearSelection upd w k g = Returns g2"
    using g2(1) clearSelection_callback [OF assms, of upd w k upd'] by simp
  then show ?thesis
    using g2 select_all_callback [OF g2(2), of upd w k "is" upd'] by simp
qed

lemma sync_selection_callback:
  "sync_selection upd w g action ty uuids = sync_selection upd' w g action ty uuids"
proof (cases "catalogue_sort_filter_model w")
  case None
  then show ?thesis
    unfolding sync_selection_def Let_def
    by (simp add: guarded_resync_callback [of _ upd w Event _ upd'])
next
  case (Some m)
  then show ?thesis
    unfolding sync_selection_def Let_def
    by (simp add: guarded_resync_callback [of _ upd w _ _ upd'])
qed

lemma state_changed_callback:
  "state_changed upd w g action ty uuids = state_changed upd' w g action ty uuids"
  by (simp add: state_changed_def sync_selection_callback [of upd w g action ty uuids upd'])

section \<open>The selection sync, verb by verb\<close>

lemma handled_verbs_members:
  "''active_select'' \<in> set handled_verbs" "''passive_select'' \<in> set handled_verbs"
  "''changed'' \<in> set handled_verbs" "''moved'' \<in> set handled_verbs"
  "''inserted'' \<in> set handled_verbs" "''deleted'' \<in> set handled_verbs"
  by (simp_all add: handled_verbs_def)

lemma resets_values:
  "resets ''active_select'' ty = []" "resets ''passive_select'' ty = []"
  "resets ''changed'' ty = [Model_Reset ty]" "resets ''moved'' ty = [Model_Reset ty]"
  "resets ''inserted'' ty = [Model_Reset ty]" "resets ''deleted'' ty = [Model_Reset ty]"
  by (simp_all add: resets_def select_verbs_def)

lemma setup_ui_no_proxy:
  "catalogue_sort_filter_model (setup_ui ei em ec er ci cr) = None"
  by (simp add: setup_ui_def)

lemma sync_selection_unknown_verb:
  "action \<notin> set handled_verbs \<Longrightarrow> sync_selection upd w g action ty uuids = Returns g"
  by (simp add: sync_selection_def)

lemma sync_selection_resync:
  assumes "action \<in> set handled_verbs"
  shows "\<exists>g'. obind (clearSelection upd w k
                  ((if action \<notin> set select_verbs then g\<lparr>view_log := view_log g @ [Model_Reset k]\<rparr> else g)
                     \<lparr>programmatic_select := True\<rparr>))
                 (\<lambda>g2. obind (select_all upd w k is g2) (\<lambda>g3. Returns (g3\<lparr>programmatic_select := False\<rparr>)))
               = Returns g'
            \<and> \<not> programmatic_select g' \<and> same_outside_views g g'
            \<and> view_log g' = view_log g @ resets action k @ Clear_Selection k # map (Select k) is"
proof -
  let ?g1 = "if action \<notin> set select_verbs then g\<lparr>view_log := view_log g @ [Model_Reset k]\<rparr> else g"
  have g1: "same_outside_views g ?g1" "view_log ?g1 = view_log g @ resets action k"
    by (simp_all add: same_outside_views_def resets_def)
  have guard: "programmatic_select (?g1\<lparr>programmatic_select := True\<rparr>)" by simp
  from guarded_resync [OF guard, of upd w k "is"]
  obtain g' where g': "obind (clearSelection upd w k (?g1\<lparr>programmatic_select := True\<rparr>))
         (\<lambda>g2. obind (select_all upd w k is g2)
            (\<lambda>g3. Returns (g3\<lparr>programmatic_select := False\<rparr>))) = Returns g'"
      "\<not> programmatic_select g'" "same_outside_views (?g1\<lparr>programmatic_select := True\<rparr>) g'"
      "view_log g' = view_log (?g1\<lparr>programmatic_select := True\<rparr>) @ Clear_Selection k # map (Select k) is"
    by blast
  have "same_outside_views g g'"
    using g1(1) g'(3) by (simp add: same_outside_views_def split: if_splits)
  moreover have "view_log g' = view_log g @ resets action k @ Clear_Selection k # map (Select k) is"
    using g'(4) g1(2) by (simp split: if_splits)
  ultimately show ?thesis using g'(1) g'(2) by blast
qed

lemma sync_selection_events:
  assumes "action \<in> set handled_verbs"
  shows "\<exists>g'. sync_selection upd w g action Event uuids = Returns g'
            \<and> \<not> programmatic_select g' \<and> same_outside_views g g'
            \<and> view_log g' = view_log g @ resets action Event @ Clear_Selection Event #
                 map (Select Event) (map (events_sort_mapFromSource w) (map (events_index_from_uuid w) uuids))"
  using sync_selection_resync [OF assms, of upd w Event g
      "map (events_sort_mapFromSource w) (map (events_index_from_uuid w) uuids)"] assms
  unfolding sync_selection_def Let_def by simp

lemma sync_selection_catalogue:
  assumes "action \<in> set handled_verbs" and "catalogue_sort_filter_model w = Some m"
  shows "\<exists>g'. sync_selection upd w g action Catalogue uuids = Returns g'
            \<and> \<not> programmatic_select g' \<and> same_outside_views g g'
            \<and> view_log g' = view_log g @ resets action Catalogue @ Clear_Selection Catalogue #
                 map (Select Catalogue) (map m (map (catalogue_index_from_uuid w) uuids))"
  using sync_selection_resync [OF assms(1), of upd w Catalogue g
      "map m (map (catalogue_index_from_uuid w) uuids)"] assms
  unfolding sync_selection_def Let_def by simp

lemma sync_selection_no_proxy:
  assumes "action \<in> set handled_verbs" and "catalogue_sort_filter_model w = None"
  shows "sync_selection upd w g action Catalogue uuids =
           Raises AttributeError (g\<lparr>view_log := view_log g @ resets action Catalogue\<rparr>)"
  using assms unfolding sync_selection_def Let_def resets_def by simp

lemma sync_selection_reaching:
  assumes "ty = Event \<or> catalogue_sort_filter_model w \<noteq> None" and "action \<in> set handled_verbs"
  shows "\<exists>g'. sync_selection upd w g action ty uuids = Returns g'
            \<and> \<not> programmatic_select g' \<and> same_outside_views g g'
            \<and> view_log g' = view_log g @ resets action ty @ Clear_Selection ty #
                 map (Select ty) (sync_indexes w ty uuids)"
proof (cases ty)
  case Event
  from sync_selection_events [OF assms(2), of upd w g uuids]
  show ?thesis using Event by (simp add: sync_indexes_def)
next
  case Catalogue
  then obtain m where m: "catalogue_sort_filter_model w = Some m" using assms(1) by auto
  from sync_selection_catalogue [OF assms(2) m, of upd g uuids]
  show ?thesis using Catalogue m by (simp add: sync_indexes_def)
qed

lemma sync_selection_total:
  "\<exists>g'. state_of (sync_selection upd w g action ty uuids) = Some g' \<and> same_outside_views g g'"
proof (cases "action \<in> set handled_verbs")
  case False
  then show ?thesis
    by (simp add: sync_selection_unknown_verb same_outside_views_refl)
next
  case True
  show ?thesis
  proof (cases ty)
    case Event
    from sync_selection_events [OF True, of upd w g uuids]
    show ?thesis using Event by auto
  next
    case Catalogue
    show ?thesis
    proof (cases "catalogue_sort_filter_model w")
      case None
      then show ?thesis
        using Catalogue sync_selection_no_proxy [OF True None, of upd g uuids]
        by (simp add: same_outside_views_def)
    next
      case (Some m)
      from sync_selection_catalogue [OF True Some, of upd g uuids]
      show ?thesis using Catalogue by auto
    qed
  qed
qed

lemma sync_selection_guard:
  "\<exists>g'. state_of (sync_selection upd w g action ty uuids) = Some g'
        \<and> (programmatic_select g' \<longrightarrow> programmatic_select g)"
proof (cases "action \<in> set handled_verbs")
  case False
  then show ?thesis by (simp add: sync_selection_unknown_verb)
next
  case True
  show ?thesis
  proof (cases "ty = Event \<or> catalogue_sort_filter_model w \<noteq> None")
    case True
    from sync_selection_reaching [OF True \<open>action \<in> set handled_verbs\<close>, of upd g uuids]
    show ?thesis by auto
  next
    case False
    then have "ty = Catalogue" "catalogue_sort_filter_model w = None"
      by (cases ty; simp)+
    then show ?thesis
      using sync_selection_no_proxy [OF True, of w upd g uuids] by simp
  qed
qed

section \<open>The enablement block\<close>

lemma enable_loop_resolved:
  "\<forall>u\<in>set us. st u \<noteq> None \<Longrightarrow>
   enable_loop st us (r, m) =
     Inr (r \<or> (\<exists>u\<in>set us. removed (the (st u))), m \<or> (\<exists>u\<in>set us. \<not> removed (the (st u))))"
proof (induction us arbitrary: r m)
  case Nil
  then show ?case by simp
next
  case (Cons u us)
  then obtain e where e: "st u = Some e" by auto
  show ?case
    using Cons e by (auto simp add: get_entity_from_uuid_safe_def is_removed_def)
qed

lemma enable_loop_stale:
  "u \<in> set us \<Longrightarrow> st u = None \<Longrightarrow> enable_loop st us (r, m) = Inl EntityNotFound"
proof (induction us arbitrary: r m)
  case Nil
  then show ?case by simp
next
  case (Cons v us)
  show ?case
  proof (cases "st v")
    case None
    then show ?thesis by (simp add: get_entity_from_uuid_safe_def)
  next
    case (Some e)
    then have "u \<in> set us" using Cons.prems by auto
    then show ?thesis
      using Cons.IH Cons.prems(2) Some by (simp add: get_entity_from_uuid_safe_def)
  qed
qed

lemma update_enablement_other_verb:
  "action \<noteq> ''active_select'' \<Longrightarrow> update_enablement g action uuids = Returns g"
  by (simp add: update_enablement_def)

lemma update_enablement_new_event:
  "\<exists>g'. state_of (update_enablement g ''active_select'' uuids) = Some g'
        \<and> (new_event_action g' \<longleftrightarrow> length uuids = 1)
        \<and> notified g' = notified g \<and> undo g' = undo g \<and> store g' = store g
        \<and> emitted g' = emitted g \<and> view_log g' = view_log g
        \<and> programmatic_select g' = programmatic_select g"
  by (cases "enable_loop (store g) uuids (False, False)")
     (auto simp add: update_enablement_def Let_def)

lemma update_enablement_resolved:
  assumes "\<forall>u\<in>set uuids. store g u \<noteq> None"
  shows "\<exists>g'. update_enablement g ''active_select'' uuids = Returns g'
        \<and> (restore_from_trash_action g' \<longleftrightarrow> (\<exists>u\<in>set uuids. removed (the (store g u))))
        \<and> (move_to_trash_action g' \<longleftrightarrow> (\<exists>u\<in>set uuids. \<not> removed (the (store g u))))
        \<and> (delete_action g' \<longleftrightarrow> uuids \<noteq> [])
        \<and> (export_action g' \<longleftrightarrow> uuids \<noteq> [])
        \<and> (new_event_action g' \<longleftrightarrow> length uuids = 1)"
proof (cases "uuids = []")
  case True
  then show ?thesis by (simp add: update_enablement_def)
next
  case False
  have "enable_loop (store g) uuids (False, False) =
          Inr ((\<exists>u\<in>set uuids. removed (the (store g u))), (\<exists>u\<in>set uuids. \<not> removed (the (store g u))))"
    using enable_loop_resolved [OF assms, of False False] by simp
  then show ?thesis
    using False by (simp add: update_enablement_def Let_def)
qed

lemma update_enablement_stale:
  assumes "u \<in> set uuids" and "store g u = None"
  shows "\<exists>g'. update_enablement g ''active_select'' uuids = Raises EntityNotFound g'
        \<and> \<not> restore_from_trash_action g' \<and> \<not> move_to_trash_action g'
        \<and> \<not> delete_action g' \<and> \<not> export_action g'
        \<and> (new_event_action g' \<longleftrightarrow> length uuids = 1)"
proof -
  have ne: "uuids \<noteq> []" using assms(1) by auto
  have "enable_loop (store g) uuids (False, False) = Inl EntityNotFound"
    using assms enable_loop_stale [of u uuids "store g" False False] by simp
  then show ?thesis
    using ne by (simp add: update_enablement_def Let_def)
qed

lemma update_enablement_guard:
  "\<exists>g'. state_of (update_enablement g action uuids) = Some g'
        \<and> programmatic_select g' = programmatic_select g"
proof (cases "action = ''active_select''")
  case True
  then show ?thesis using update_enablement_new_event [of g uuids] by auto
next
  case False
  then show ?thesis by (simp add: update_enablement_other_verb)
qed

section \<open>The handler and the broadcast as a whole\<close>

lemma state_changed_keeps_enablement:
  assumes "action \<noteq> ''active_select''"
  shows "\<exists>g'. state_of (state_changed upd w g action ty uuids) = Some g' \<and> same_enablement g g'
           \<and> same_outside_views g g'"
proof -
  from sync_selection_total [of upd w g action ty uuids]
  obtain g1 where g1: "state_of (sync_selection upd w g action ty uuids) = Some g1"
      "same_outside_views g g1" by blast
  have en: "same_enablement g g1"
    using g1(2) by (simp add: same_outside_views_def same_enablement_def)
  show ?thesis
  proof (cases "sync_selection upd w g action ty uuids")
    case (Returns s)
    then show ?thesis
      using g1 en assms by (simp add: state_changed_def update_enablement_other_verb)
  next
    case (Raises e s)
    then show ?thesis using g1 en by (simp add: state_changed_def)
  next
    case NoFuel
    then show ?thesis using g1 by simp
  qed
qed

lemma state_changed_total:
  "\<exists>g'. state_of (state_changed upd w g action ty uuids) = Some g'
        \<and> notified g' = notified g \<and> undo g' = undo g \<and> store g' = store g \<and> emitted g' = emitted g"
proof (cases "action = ''active_select''")
  case False
  from state_changed_keeps_enablement [OF False, of upd w g ty uuids]
  show ?thesis by (auto simp add: same_outside_views_def)
next
  case True
  from sync_selection_total [of upd w g action ty uuids]
  obtain g1 where g1: "state_of (sync_selection upd w g action ty uuids) = Some g1"
      "same_outside_views g g1" by blast
  show ?thesis
  proof (cases "sync_selection upd w g action ty uuids")
    case (Returns s)
    then have s: "s = g1" using g1 by simp
    from update_enablement_new_event [of g1 uuids]
    show ?thesis
      using Returns s g1(2) True by (auto simp add: state_changed_def same_outside_views_def)
  next
    case (Raises e s)
    then show ?thesis using g1 by (simp add: state_changed_def same_outside_views_def)
  next
    case NoFuel
    then show ?thesis using g1 by simp
  qed
qed

lemma state_changed_guard:
  "\<exists>g'. state_of (state_changed upd w g action ty uuids) = Some g'
        \<and> (programmatic_select g' \<longrightarrow> programmatic_select g)"
proof -
  from sync_selection_guard [of upd w g action ty uuids]
  obtain g1 where g1: "state_of (sync_selection upd w g action ty uuids) = Some g1"
      "programmatic_select g1 \<longrightarrow> programmatic_select g" by blast
  show ?thesis
  proof (cases "sync_selection upd w g action ty uuids")
    case (Returns s)
    then have "s = g1" using g1 by simp
    then show ?thesis
      using Returns g1(2) update_enablement_guard [of g1 action uuids]
      by (auto simp add: state_changed_def)
  next
    case (Raises e s)
    then show ?thesis using g1 by (simp add: state_changed_def)
  next
    case NoFuel
    then show ?thesis using g1 by simp
  qed
qed

lemma state_changed_active_select:
  assumes "ty = Event \<or> catalogue_sort_filter_model w \<noteq> None"
  shows "\<exists>g1. state_changed upd w g ''active_select'' ty uuids = update_enablement g1 ''active_select'' uuids
            \<and> same_outside_views g g1 \<and> \<not> programmatic_select g1
            \<and> view_log g1 = view_log g @ Clear_Selection ty # map (Select ty) (sync_indexes w ty uuids)"
proof -
  have h: "''active_select'' \<in> set handled_verbs" by (simp add: handled_verbs_def)
  from sync_selection_reaching [OF assms h, of upd g uuids]
  show ?thesis by (auto simp add: state_changed_def resets_def select_verbs_def)
qed

lemma state_changed_no_proxy:
  assumes "action \<in> set handled_verbs" and "catalogue_sort_filter_model w = None"
  shows "state_changed upd w g action Catalogue uuids =
           Raises AttributeError (g\<lparr>view_log := view_log g @ resets action Catalogue\<rparr>)"
  using sync_selection_no_proxy [OF assms, of upd g uuids] by (simp add: state_changed_def)

lemma external_signal_emission_frame:
  "store (external_signal_emission g action ty uuids) = store g"
  "undo (external_signal_emission g action ty uuids) = undo g"
  "notified (external_signal_emission g action ty uuids) = notified g"
  "programmatic_select (external_signal_emission g action ty uuids) = programmatic_select g"
  "view_log (external_signal_emission g action ty uuids) = view_log g"
  "same_enablement g (external_signal_emission g action ty uuids)"
  by (simp_all add: external_signal_emission_def same_enablement_def)

lemma updated_total:
  "\<exists>g'. state_of (updated (Suc n) w g action ty uuids) = Some g'
        \<and> notified g' = notified g @ [(action, ty, uuids)] \<and> undo g' = undo g \<and> store g' = store g
        \<and> (programmatic_select g' \<longrightarrow> programmatic_select g)"
proof -
  let ?g0 = "external_signal_emission (g\<lparr>notified := notified g @ [(action, ty, uuids)]\<rparr>) action ty uuids"
  from state_changed_total [of "updated n w" w ?g0 action ty uuids]
  obtain g' where g': "state_of (state_changed (updated n w) w ?g0 action ty uuids) = Some g'"
     "notified g' = notified ?g0" "undo g' = undo ?g0" "store g' = store ?g0" by blast
  from state_changed_guard [of "updated n w" w ?g0 action ty uuids] g'(1)
  have "programmatic_select g' \<longrightarrow> programmatic_select ?g0" by auto
  then show ?thesis
    using g' by (simp add: external_signal_emission_frame)
qed

lemma updated_catalogue_no_proxy:
  assumes "action \<in> set handled_verbs" and "catalogue_sort_filter_model w = None"
  shows "\<exists>g'. updated (Suc n) w g action Catalogue uuids = Raises AttributeError g'
           \<and> same_enablement g g' \<and> catalogues_selection g' = catalogues_selection g
           \<and> view_log g' = view_log g @ resets action Catalogue"
proof -
  let ?g0 = "external_signal_emission (g\<lparr>notified := notified g @ [(action, Catalogue, uuids)]\<rparr>) action Catalogue uuids"
  have "updated (Suc n) w g action Catalogue uuids =
          Raises AttributeError (?g0\<lparr>view_log := view_log ?g0 @ resets action Catalogue\<rparr>)"
    using state_changed_no_proxy [OF assms, of "updated n w" ?g0 uuids] by simp
  moreover have "same_enablement g (?g0\<lparr>view_log := view_log ?g0 @ resets action Catalogue\<rparr>)"
    by (simp add: external_signal_emission_def same_enablement_def)
  moreover have "catalogues_selection (?g0\<lparr>view_log := view_log ?g0 @ resets action Catalogue\<rparr>) = catalogues_selection g"
    by (simp add: external_signal_emission_def)
  moreover have "view_log (?g0\<lparr>view_log := view_log ?g0 @ resets action Catalogue\<rparr>) = view_log g @ resets action Catalogue"
    by (simp add: external_signal_emission_def)
  ultimately show ?thesis by blast
qed

lemma example_facts:
  "catalogue_sort_filter_model example_widgets = None"
  "example_store ''gone'' = None"
  "example_store ''e1'' = Some \<lparr>entity_type = Event, removed = False, start = 10, stop = 20, author = ''p'', events = []\<rparr>"
  "example_store ''e2'' = Some \<lparr>entity_type = Event, removed = True, start = 30, stop = 40, author = ''p'', events = []\<rparr>"
  "example_store ''A'' = Some \<lparr>entity_type = Catalogue, removed = False, start = 0, stop = 0, author = ''p'', events = [''e1'', ''e2'']\<rparr>"
  by (simp_all add: example_widgets_def setup_ui_def example_store_def)

lemma init_fields:
  "store (init st) = st" "\<not> programmatic_select (init st)" "notified (init st) = []"
  "view_log (init st) = []" "catalogues_selection (init st) = []" "events_selection (init st) = []"
  "\<not> move_to_trash_action (init st)" "\<not> restore_from_trash_action (init st)"
  "\<not> delete_action (init st)" "\<not> new_event_action (init st)" "\<not> export_action (init st)"
  by (simp_all add: init_def)

section \<open>Ranges and menu entries\<close>

lemma py_range_down:
  "f \<le> i \<Longrightarrow> py_range (int i - 1) (int f - 1) (- 1) = map (\<lambda>k. int i - 1 - int k) [0..<i - f]"
proof -
  assume "f \<le> i"
  then have "nat (int i - 1 - (int f - 1) - (- 1) - 1) = i - f" by simp
  then show ?thesis by (simp add: py_range_def)
qed

lemma py_range_up:
  "i \<le> l \<Longrightarrow> py_range (int i) (int l) 1 = map (\<lambda>k. int i + int k) [0..<l - i]"
proof -
  assume "i \<le> l"
  then have "nat (int l - int i) = l - i" by simp
  then show ?thesis by (simp add: py_range_def)
qed

lemma py_range_distinct: "distinct (py_range a b step)"
  by (auto simp add: py_range_def distinct_map inj_on_def)

lemma undo_range:
  assumes "i \<le> n"
  shows "py_range (int i - 1) (max 0 (int i - 10) - 1) (- 1) = map (\<lambda>k. int i - 1 - int k) [0..<min i 10]"
proof -
  have f: "max 0 (int i - 10) = int (i - 10)" by simp
  have "i - (i - 10) = min i 10" by simp
  then show ?thesis
    using py_range_down [of "i - 10" i] f by simp
qed

lemma redo_range:
  assumes "i \<le> n"
  shows "py_range (int i) (min (int n) (int i + 10)) 1 = map (\<lambda>k. int i + int k) [0..<min (n - i) 10]"
proof -
  have l: "min (int n) (int i + 10) = int (min n (i + 10))" by simp
  have "min n (i + 10) - i = min (n - i) 10" using assms by simp
  moreover have "i \<le> min n (i + 10)" using assms by simp
  ultimately show ?thesis
    using py_range_up [of i "min n (i + 10)"] l by simp
qed

lemma menu_actions_valid:
  "\<forall>j\<in>set xs. 0 \<le> j \<and> j < count s \<Longrightarrow>
   menu_actions s xs inc =
     Inr (map (\<lambda>j. \<lparr>action_text = commands s ! nat j, enabled = True,
                      triggered = Some (SetIndex_Lambda j inc)\<rparr>) xs)"
  by (induction xs) (simp_all add: command_def)

lemma menu_actions_Inr:
  "menu_actions s xs inc = Inr menu \<Longrightarrow>
   menu = map (\<lambda>j. \<lparr>action_text = the (command s j), enabled = True,
                     triggered = Some (SetIndex_Lambda j inc)\<rparr>) xs
   \<and> (\<forall>j\<in>set xs. command s j \<noteq> None)"
proof (induction xs arbitrary: menu)
  case Nil
  then show ?case by simp
next
  case (Cons j xs)
  then show ?case
    by (auto split: option.splits sum.splits)
qed

lemma undo_entries:
  assumes "i \<le> length (commands s)"
  shows "menu_actions s (map (\<lambda>k. int i - 1 - int k) [0..<min i 10]) inc =
     Inr (map (\<lambda>k. \<lparr>action_text = commands s ! (i - 1 - k), enabled = True,
                      triggered = Some (SetIndex_Lambda (int i - 1 - int k) inc)\<rparr>) [0..<min i 10])"
proof -
  have valid: "\<forall>j\<in>set (map (\<lambda>k. int i - 1 - int k) [0..<min i 10]). 0 \<le> j \<and> j < count s"
    using assms by (auto simp add: count_def)
  have "\<And>k. k < min i 10 \<Longrightarrow> nat (int i - 1 - int k) = i - 1 - k" by auto
  then show ?thesis
    using menu_actions_valid [OF valid, of inc] by (simp add: comp_def)
qed

lemma redo_entries:
  assumes "i \<le> length (commands s)"
  shows "menu_actions s (map (\<lambda>k. int i + int k) [0..<min (length (commands s) - i) 10]) inc =
     Inr (map (\<lambda>k. \<lparr>action_text = commands s ! (i + k), enabled = True,
                      triggered = Some (SetIndex_Lambda (int i + int k) inc)\<rparr>)
            [0..<min (length (commands s) - i) 10])"
proof -
  have valid: "\<forall>j\<in>set (map (\<lambda>k. int i + int k) [0..<min (length (commands s) - i) 10]). 0 \<le> j \<and> j < count s"
    using assms by (auto simp add: count_def)
  have "\<And>k. nat (int i + int k) = i + k" by auto
  then show ?thesis
    using menu_actions_valid [OF valid, of inc] by (simp add: comp_def)
qed

lemma create_menu_Returns:
  "create_undo_redo_action_menu_on_toolbutton xs b inc more_items txt g = Returns g' \<Longrightarrow>
   \<exists>menu. menu_actions (undo g) xs inc = Inr menu
        \<and> g' = setMenu b (if more_items then menu @ [\<lparr>action_text = txt, enabled = False, triggered = None\<rparr>] else menu) g"
  by (auto simp add: create_undo_redo_action_menu_on_toolbutton_def split: sum.splits)

lemma setMenu_fields:
  "undo (setMenu b m g) = undo g"
  "undo_menu (setMenu Undo_Button m g) = m"
  "redo_menu (setMenu Redo_Button m g) = m"
  "undo_menu (setMenu Redo_Button m g) = undo_menu g"
  "redo_menu (setMenu Undo_Button m g) = redo_menu g"
  by (cases b; simp add: setMenu_def)+

lemma obind_Returns:
  "obind m f = Returns g' \<Longrightarrow> \<exists>g1. m = Returns g1 \<and> f g1 = Returns g'"
  by (cases m) simp_all

lemma index_changed_menus:
  assumes "i \<le> length (commands (undo g))"
  shows "undo_redo_index_changed (int i) g =
    Returns (setMenu Redo_Button
      (map (\<lambda>k. \<lparr>action_text = commands (undo g) ! (i + k), enabled = True,
                  triggered = Some (SetIndex_Lambda (int i + int k) 1)\<rparr>)
          [0..<min (length (commands (undo g)) - i) 10]
       @ (if i + 10 < length (commands (undo g))
          then [\<lparr>action_text = str_int (int (length (commands (undo g))) - int i - 10) @ '' more redo actions'',
                 enabled = False, triggered = None\<rparr>]
          else []))
      (setMenu Undo_Button
        (map (\<lambda>k. \<lparr>action_text = commands (undo g) ! (i - 1 - k), enabled = True,
                    triggered = Some (SetIndex_Lambda (int i - 1 - int k) 0)\<rparr>) [0..<min i 10]
         @ (if 10 < i
            then [\<lparr>action_text = str_int (int i - 10) @ '' more undo actions'', enabled = False, triggered = None\<rparr>]
            else []))
        g))"
proof -
  let ?n = "length (commands (undo g))"
  let ?UM = "map (\<lambda>k. \<lparr>action_text = commands (undo g) ! (i - 1 - k), enabled = True,
                    triggered = Some (SetIndex_Lambda (int i - 1 - int k) 0)\<rparr>) [0..<min i 10]
         @ (if 10 < i
            then [\<lparr>action_text = str_int (int i - 10) @ '' more undo actions'', enabled = False, triggered = None\<rparr>]
            else [])"
  have more_u: "(max 0 (int i - 10) \<noteq> 0) = (10 < i)" by auto
  have txt_u: "10 < i \<Longrightarrow> max 0 (int i - 10) = int i - 10" by simp
  have first: "create_undo_redo_action_menu_on_toolbutton
                  (py_range (int i - 1) (max 0 (int i - 10) - 1) (- 1)) Undo_Button 0 (max 0 (int i - 10) \<noteq> 0)
                  (str_int (max 0 (int i - 10)) @ '' more undo actions'') g
               = Returns (setMenu Undo_Button ?UM g)"
    unfolding create_undo_redo_action_menu_on_toolbutton_def undo_range [OF assms] undo_entries [OF assms] more_u
    using txt_u by simp
  let ?g1 = "setMenu Undo_Button ?UM g"
  have u1: "undo ?g1 = undo g" by (simp add: setMenu_fields)
  have more_r: "(min (int ?n) (int i + 10) \<noteq> int ?n) = (i + 10 < ?n)" by auto
  have txt_r: "i + 10 < ?n \<Longrightarrow> int ?n - min (int ?n) (int i + 10) = int ?n - int i - 10" by simp
  have second: "create_undo_redo_action_menu_on_toolbutton
                  (py_range (int i) (min (count (undo ?g1)) (int i + 10)) 1) Redo_Button 1
                  (min (count (undo ?g1)) (int i + 10) \<noteq> count (undo ?g1))
                  (str_int (count (undo ?g1) - min (count (undo ?g1)) (int i + 10)) @ '' more redo actions'') ?g1
               = Returns (setMenu Redo_Button
      (map (\<lambda>k. \<lparr>action_text = commands (undo g) ! (i + k), enabled = True,
                  triggered = Some (SetIndex_Lambda (int i + int k) 1)\<rparr>)
          [0..<min (?n - i) 10]
       @ (if i + 10 < ?n
          then [\<lparr>action_text = str_int (int ?n - int i - 10) @ '' more redo actions'',
                 enabled = False, triggered = None\<rparr>]
          else [])) ?g1)"
    unfolding create_undo_redo_action_menu_on_toolbutton_def u1 count_def
      redo_range [OF assms] redo_entries [OF assms] more_r
    using txt_r by (simp add: diff_diff_eq)
  show ?thesis
    unfolding undo_redo_index_changed_def Let_def first using second by simp
qed

lemma menu_entry_trigger:
  assumes "menu_actions s xs inc = Inr menu" and "p < length xs"
  shows "trigger ((if more_items then menu @ [x] else menu) ! p) h = setIndex (xs ! p + inc) h
       \<and> triggered ((if more_items then menu @ [x] else menu) ! p) = Some (SetIndex_Lambda (xs ! p) inc)
       \<and> command s (xs ! p) = Some (action_text ((if more_items then menu @ [x] else menu) ! p))"
proof -
  from menu_actions_Inr [OF assms(1)]
  have m: "menu = map (\<lambda>j. \<lparr>action_text = the (command s j), enabled = True,
                     triggered = Some (SetIndex_Lambda j inc)\<rparr>) xs"
    and v: "\<forall>j\<in>set xs. command s j \<noteq> None" by simp_all
  have len: "p < length menu" using m assms(2) by simp
  have nth: "(if more_items then menu @ [x] else menu) ! p = menu ! p"
    using len by (simp add: nth_append)
  have entry: "menu ! p = \<lparr>action_text = the (command s (xs ! p)), enabled = True,
                     triggered = Some (SetIndex_Lambda (xs ! p) inc)\<rparr>"
    using m assms(2) by simp
  have "command s (xs ! p) \<noteq> None" using v assms(2) by simp
  then show ?thesis
    unfolding nth entry by (auto simp add: trigger_def)
qed

section \<open>Selection feedback\<close>

text \<open>
  C1: a selection-changed signal that arrives while the guard is set does nothing, and one
  that arrives with the guard unset makes exactly one call
  \<^verbatim>\<open>updated('active_select', kind, uuids)\<close> with the UUIDs of the view's selection. The
  state-changed handler never uses the broadcaster: its result is the same with a
  broadcaster that cannot be called at all, and it leaves the log of notifications as it
  was. Hence a selection made by the user, with any fuel of at least one, ends with exactly
  one more notification in the log, the guard unset again.
\<close>

theorem selection_feedback_guard:
  "(programmatic_select g \<longrightarrow> emit_selectionChanged upd w k g = Returns g)
   \<and> (\<not> programmatic_select g \<longrightarrow>
        emit_selectionChanged upd w k g = upd g ''active_select'' k (selection_uuids w k g))
   \<and> state_changed upd w g action ty uuids = state_changed (\<lambda>g a t us. NoFuel) w g action ty uuids
   \<and> (\<exists>g'. state_of (state_changed upd w g action ty uuids) = Some g' \<and> notified g' = notified g)
   \<and> (\<not> programmatic_select g \<and> sel \<noteq> view_selection k g \<longrightarrow>
        (\<exists>g'. state_of (native_selection_change (updated (Suc n) w) w k sel g) = Some g'
             \<and> notified g' = notified g @ [(''active_select'', k, selection_uuids w k (set_view_selection k sel g))]
             \<and> \<not> programmatic_select g'))"
proof -
  have a: "programmatic_select g \<longrightarrow> emit_selectionChanged upd w k g = Returns g"
    by (simp add: emit_guarded)
  have b: "\<not> programmatic_select g \<longrightarrow>
        emit_selectionChanged upd w k g = upd g ''active_select'' k (selection_uuids w k g)"
    by (simp add: emit_unguarded)
  have c: "state_changed upd w g action ty uuids = state_changed (\<lambda>g a t us. NoFuel) w g action ty uuids"
    by (rule state_changed_callback)
  have d: "\<exists>g'. state_of (state_changed upd w g action ty uuids) = Some g' \<and> notified g' = notified g"
    using state_changed_total [of upd w g action ty uuids] by blast
  have e: "\<not> programmatic_select g \<and> sel \<noteq> view_selection k g \<longrightarrow>
        (\<exists>g'. state_of (native_selection_change (updated (Suc n) w) w k sel g) = Some g'
             \<and> notified g' = notified g @ [(''active_select'', k, selection_uuids w k (set_view_selection k sel g))]
             \<and> \<not> programmatic_select g')"
  proof
    assume h: "\<not> programmatic_select g \<and> sel \<noteq> view_selection k g"
    let ?g1 = "set_view_selection k sel g"
    have g1: "\<not> programmatic_select ?g1" "notified ?g1 = notified g"
      using h by (simp_all add: set_view_selection_fields set_view_selection_notified)
    have run: "native_selection_change (updated (Suc n) w) w k sel g
               = updated (Suc n) w ?g1 ''active_select'' k (selection_uuids w k ?g1)"
      using h emit_unguarded [OF g1(1), of "updated (Suc n) w" w k]
      by (simp add: native_selection_change_def)
    from updated_total [of n w ?g1 "''active_select''" k "selection_uuids w k ?g1"]
    obtain g' where "state_of (updated (Suc n) w ?g1 ''active_select'' k (selection_uuids w k ?g1)) = Some g'"
      "notified g' = notified ?g1 @ [(''active_select'', k, selection_uuids w k ?g1)]"
      "programmatic_select g' \<longrightarrow> programmatic_select ?g1"
      by blast
    then show "\<exists>g'. state_of (native_selection_change (updated (Suc n) w) w k sel g) = Some g'
             \<and> notified g' = notified g @ [(''active_select'', k, selection_uuids w k (set_view_selection k sel g))]
             \<and> \<not> programmatic_select g'"
      using run g1 by auto
  qed
  from a b c d e show ?thesis by blast
qed

theorem selection_feedback_guard_witness:
  "\<not> programmatic_select (init example_store)
   \<and> [Index 0 0, Index 0 1] \<noteq> view_selection Event (init example_store)
   \<and> (\<exists>g'. state_of (native_selection_change (updated (Suc 0) example_widgets) example_widgets Event
                       [Index 0 0, Index 0 1] (init example_store)) = Some g'
          \<and> notified g' = [(''active_select'', Event, [''e1''])]
          \<and> \<not> programmatic_select g')
   \<and> programmatic_select ((init example_store)\<lparr>programmatic_select := True\<rparr>)
   \<and> emit_selectionChanged (updated (Suc 0) example_widgets) example_widgets Event
        ((init example_store)\<lparr>programmatic_select := True\<rparr>)
      = Returns ((init example_store)\<lparr>programmatic_select := True\<rparr>)"
  using selection_feedback_guard
          [of "init example_store" "updated (Suc 0) example_widgets" example_widgets Event
              "''active_select''" Event "[]" "[Index 0 0, Index 0 1]" 0]
        selection_feedback_guard
          [of "(init example_store)\<lparr>programmatic_select := True\<rparr>" "updated (Suc 0) example_widgets"
              example_widgets Event "''active_select''" Event "[]" "[]" 0]
  by (simp add: init_fields view_selection_def selection_uuids_def set_view_selection_def
        example_widgets_def setup_ui_def)

section \<open>Enablement of create event\<close>

text \<open>
  C2, as the code has it: whenever the handler reaches the enablement block (every
  notification of kind Event; one of kind Catalogue when the widget has its
  \<^verbatim>\<open>catalogue_sort_filter_model\<close>), "create event" is enabled after an \<^verbatim>\<open>active_select\<close>
  exactly when the list holds one UUID, whatever the kind of the entity.
\<close>

theorem create_event_enabled_iff_single_uuid:
  "ty = Event \<or> catalogue_sort_filter_model w \<noteq> None \<Longrightarrow>
   \<exists>g'. state_of (state_changed upd w g ''active_select'' ty uuids) = Some g'
       \<and> (new_event_action g' \<longleftrightarrow> length uuids = 1)"
proof -
  assume r: "ty = Event \<or> catalogue_sort_filter_model w \<noteq> None"
  from state_changed_active_select [OF r, of upd g uuids]
  obtain g1 where g1: "state_changed upd w g ''active_select'' ty uuids = update_enablement g1 ''active_select'' uuids"
    by blast
  from update_enablement_new_event [of g1 uuids]
  show ?thesis using g1 by auto
qed

theorem create_event_enabled_iff_single_uuid_witness:
  "(Event = Event \<or> catalogue_sort_filter_model example_widgets \<noteq> None)
   \<and> (\<exists>g'. state_of (state_changed (updated 0 example_widgets) example_widgets (init example_store)
              ''active_select'' Event [''e1'', ''e2'']) = Some g'
          \<and> \<not> new_event_action g')"
  using create_event_enabled_iff_single_uuid
          [of Event example_widgets "updated 0 example_widgets" "init example_store" "[''e1'', ''e2'']"]
  by simp

text \<open>
  C2 as stated fails: the \<^verbatim>\<open>active_select\<close> of the single Event \<^verbatim>\<open>e1\<close> leaves "create
  event" enabled.
\<close>

theorem create_event_enabled_for_single_event:
  "map_option entity_type (example_store ''e1'') = Some Event
   \<and> map_option new_event_action
       (state_of (updated (Suc 0) example_widgets (init example_store) ''active_select'' Event [''e1'']))
     = Some True"
proof -
  let ?g0 = "external_signal_emission
     ((init example_store)\<lparr>notified := notified (init example_store) @ [(''active_select'', Event, [''e1''])]\<rparr>)
     ''active_select'' Event [''e1'']"
  from state_changed_active_select [of Event example_widgets "updated 0 example_widgets" ?g0 "[''e1'']"]
  obtain g1 where g1: "state_changed (updated 0 example_widgets) example_widgets ?g0 ''active_select'' Event [''e1'']
       = update_enablement g1 ''active_select'' [''e1'']"
    by blast
  from update_enablement_new_event [of g1 "[''e1'']"]
  obtain g' where "state_of (update_enablement g1 ''active_select'' [''e1'']) = Some g'" "new_event_action g'"
    by auto
  then show ?thesis using g1 by (simp add: example_facts)
qed

section \<open>Enablement of restore, move to trash, delete and export\<close>

text \<open>
  Where the handler reaches the enablement block and every UUID resolves, the four flags
  are recomputed from the entities: restore and move to trash from the trashed state of
  the selected entities, delete and export from the selection being non-empty.
\<close>

lemma enablement_recomputed_when_reached:
  assumes "ty = Event \<or> catalogue_sort_filter_model w \<noteq> None"
    and "\<forall>u\<in>set uuids. store g u \<noteq> None"
  shows "\<exists>g'. state_changed upd w g ''active_select'' ty uuids = Returns g'
        \<and> (restore_from_trash_action g' \<longleftrightarrow> (\<exists>u\<in>set uuids. removed (the (store g u))))
        \<and> (move_to_trash_action g' \<longleftrightarrow> (\<exists>u\<in>set uuids. \<not> removed (the (store g u))))
        \<and> (delete_action g' \<longleftrightarrow> uuids \<noteq> [])
        \<and> (export_action g' \<longleftrightarrow> uuids \<noteq> [])"
proof -
  from state_changed_active_select [OF assms(1), of upd g uuids]
  obtain g1 where g1: "state_changed upd w g ''active_select'' ty uuids = update_enablement g1 ''active_select'' uuids"
     "same_outside_views g g1" by blast
  have st: "store g1 = store g" using g1(2) by (simp add: same_outside_views_def)
  from update_enablement_resolved [of uuids g1] assms(2) st
  show ?thesis using g1(1) by auto
qed

text \<open>
  C3 fails on the window as \<^verbatim>\<open>__setup_ui\<close> builds it: an \<^verbatim>\<open>active_select\<close> of kind
  Catalogue leaves the handler with an \<^verbatim>\<open>AttributeError\<close> at line 68, before the
  enablement block, and the flags keep their previous values. After the selection of the
  catalogue \<^verbatim>\<open>A\<close>, which is not trashed, "move to trash", "delete permanently" and
  "export" are still disabled.
\<close>

theorem catalogue_selection_leaves_enablement_stale:
  "raised (state_changed upd (setup_ui ei em ec er ci cr) g ''active_select'' Catalogue uuids)
     = Some AttributeError
   \<and> (\<exists>g'. state_of (updated (Suc n) (setup_ui ei em ec er ci cr) g ''active_select'' Catalogue uuids)
           = Some g' \<and> same_enablement g g')
   \<and> map_option removed (example_store ''A'') = Some False
   \<and> map_option move_to_trash_action
        (state_of (updated (Suc 0) example_widgets (init example_store) ''active_select'' Catalogue [''A'']))
      = Some False
   \<and> map_option delete_action
        (state_of (updated (Suc 0) example_widgets (init example_store) ''active_select'' Catalogue [''A'']))
      = Some False
   \<and> map_option export_action
        (state_of (updated (Suc 0) example_widgets (init example_store) ''active_select'' Catalogue [''A'']))
      = Some False"
proof -
  have handler: "raised (state_changed upd (setup_ui ei em ec er ci cr) g ''active_select'' Catalogue uuids)
     = Some AttributeError"
    using state_changed_no_proxy [OF handled_verbs_members(1) setup_ui_no_proxy, of upd ei em ec er ci cr g uuids]
    by simp
  from updated_catalogue_no_proxy [OF handled_verbs_members(1) setup_ui_no_proxy, of n ei em ec er ci cr g uuids]
  have general: "\<exists>g'. state_of (updated (Suc n) (setup_ui ei em ec er ci cr) g ''active_select'' Catalogue uuids)
           = Some g' \<and> same_enablement g g'"
    by auto
  from updated_catalogue_no_proxy [OF handled_verbs_members(1) example_facts(1), of 0 "init example_store" "[''A'']"]
  obtain g' where g': "updated (Suc 0) example_widgets (init example_store) ''active_select'' Catalogue [''A'']
           = Raises AttributeError g'" "same_enablement (init example_store) g'"
    by blast
  have "\<not> move_to_trash_action g'" "\<not> delete_action g'" "\<not> export_action g'"
    using g'(2) by (simp_all add: same_enablement_def init_fields)
  then show ?thesis
    using handler general g'(1) by (simp add: example_facts)
qed

section \<open>Enablement and the other verbs\<close>

text \<open>
  C4: a notification whose verb is not \<^verbatim>\<open>active_select\<close> (so \<^verbatim>\<open>passive_select\<close>,
  \<^verbatim>\<open>changed\<close>, \<^verbatim>\<open>moved\<close>, \<^verbatim>\<open>inserted\<close>, \<^verbatim>\<open>deleted\<close>) leaves the five enablement
  flags as they were, for the handler alone and for the whole broadcast.
\<close>

theorem enablement_untouched_unless_active_select:
  "action \<noteq> ''active_select'' \<Longrightarrow>
     (\<exists>g'. state_of (state_changed upd w g action ty uuids) = Some g' \<and> same_enablement g g')
   \<and> (\<exists>g'. state_of (updated (Suc n) w g action ty uuids) = Some g' \<and> same_enablement g g')"
proof -
  assume a: "action \<noteq> ''active_select''"
  let ?g0 = "external_signal_emission (g\<lparr>notified := notified g @ [(action, ty, uuids)]\<rparr>) action ty uuids"
  have g0: "same_enablement g ?g0"
    by (simp add: external_signal_emission_def same_enablement_def)
  from state_changed_keeps_enablement [OF a, of upd w g ty uuids]
  have first: "\<exists>g'. state_of (state_changed upd w g action ty uuids) = Some g' \<and> same_enablement g g'"
    by blast
  from state_changed_keeps_enablement [OF a, of "updated n w" w ?g0 ty uuids]
  obtain g' where "state_of (state_changed (updated n w) w ?g0 action ty uuids) = Some g'"
      "same_enablement ?g0 g'" by blast
  then have "state_of (updated (Suc n) w g action ty uuids) = Some g' \<and> same_enablement g g'"
    using g0 by (simp add: same_enablement_def)
  then show ?thesis using first by blast
qed

theorem enablement_untouched_unless_active_select_witness:
  "''passive_select'' \<noteq> ''active_select''
   \<and> (\<exists>g'. state_of (updated (Suc 0) example_widgets (init example_store) ''passive_select'' Event [''e1'']) = Some g'
          \<and> same_enablement (init example_store) g')"
  using enablement_untouched_unless_active_select
          [of "''passive_select''" "updated 0 example_widgets" example_widgets "init example_store" Event "[''e1'']" 0]
  by simp

section \<open>External notification channels\<close>

text \<open>
  C5: for every action string, kind and UUID list, the signals fired to external observers
  are: catalogues-selected or events-selected (by kind) exactly when the verb is
  \<^verbatim>\<open>active_select\<close>, catalogues-changed or events-changed exactly when the verb is
  \<^verbatim>\<open>changed\<close>, each once and with the UUIDs of the action, and nothing for
  \<^verbatim>\<open>passive_select\<close>, \<^verbatim>\<open>inserted\<close>, \<^verbatim>\<open>deleted\<close> and \<^verbatim>\<open>moved\<close>.
\<close>

theorem external_channels_fire_exactly:
  "fired g (external_signal_emission g action ty uuids) =
     (if action = ''active_select''
      then [(case ty of Catalogue \<Rightarrow> Catalogues_Selected | Event \<Rightarrow> Events_Selected, uuids)]
      else if action = ''changed''
      then [(case ty of Catalogue \<Rightarrow> Catalogues_Changed | Event \<Rightarrow> Events_Changed, uuids)]
      else [])
   \<and> (Catalogues_Selected \<in> fst ` set (fired g (external_signal_emission g action ty uuids))
        \<longleftrightarrow> action = ''active_select'' \<and> ty = Catalogue)
   \<and> (Events_Selected \<in> fst ` set (fired g (external_signal_emission g action ty uuids))
        \<longleftrightarrow> action = ''active_select'' \<and> ty = Event)
   \<and> (Catalogues_Changed \<in> fst ` set (fired g (external_signal_emission g action ty uuids))
        \<longleftrightarrow> action = ''changed'' \<and> ty = Catalogue)
   \<and> (Events_Changed \<in> fst ` set (fired g (external_signal_emission g action ty uuids))
        \<longleftrightarrow> action = ''changed'' \<and> ty = Event)
   \<and> (action \<in> set [''passive_select'', ''inserted'', ''deleted'', ''moved'']
        \<longrightarrow> fired g (external_signal_emission g action ty uuids) = [])"
  by (cases ty) (auto simp add: external_signal_emission_def fired_def)

theorem external_channels_fire_exactly_witness:
  "''passive_select'' \<in> set [''passive_select'', ''inserted'', ''deleted'', ''moved'']
   \<and> fired (init example_store)
        (external_signal_emission (init example_store) ''passive_select'' Event [''e1'']) = []
   \<and> fired (init example_store)
        (external_signal_emission (init example_store) ''active_select'' Event [''e1''])
      = [(Events_Selected, [''e1''])]"
  using external_channels_fire_exactly [of "init example_store" "''passive_select''" Event "[''e1'']"]
        external_channels_fire_exactly [of "init example_store" "''active_select''" Event "[''e1'']"]
  by simp

section \<open>Model reset and selection re-apply\<close>

text \<open>
  For an action of kind Event the view operations are, in this order: the model reset
  exactly for \<^verbatim>\<open>changed\<close>, \<^verbatim>\<open>moved\<close>, \<^verbatim>\<open>inserted\<close>, \<^verbatim>\<open>deleted\<close>, then the clearing
  of the selection, then one selection per UUID.
\<close>

lemma events_reset_then_reselect:
  assumes "action \<in> set handled_verbs"
  shows "\<exists>g'. sync_selection upd w g action Event uuids = Returns g'
        \<and> view_log g' = view_log g
             @ (if action \<in> set [''active_select'', ''passive_select''] then [] else [Model_Reset Event])
             @ Clear_Selection Event # map (Select Event) (sync_indexes w Event uuids)"
  using sync_selection_reaching [of Event w action upd g uuids] assms
  by (auto simp add: resets_def select_verbs_def)

text \<open>
  C6 fails on the window as \<^verbatim>\<open>__setup_ui\<close> builds it: for an action of kind Catalogue
  the selection is never re-applied. A select verb leaves the state as it was and raises;
  a mutation verb resets the catalogue model and raises, with no clearing and no selection
  after the reset.
\<close>

theorem catalogue_selection_not_reapplied:
  "state_changed upd (setup_ui ei em ec er ci cr) g ''active_select'' Catalogue uuids = Raises AttributeError g
   \<and> state_changed upd (setup_ui ei em ec er ci cr) g ''passive_select'' Catalogue uuids = Raises AttributeError g
   \<and> state_changed upd (setup_ui ei em ec er ci cr) g ''changed'' Catalogue uuids
       = Raises AttributeError (g\<lparr>view_log := view_log g @ [Model_Reset Catalogue]\<rparr>)
   \<and> state_changed upd (setup_ui ei em ec er ci cr) g ''inserted'' Catalogue uuids
       = Raises AttributeError (g\<lparr>view_log := view_log g @ [Model_Reset Catalogue]\<rparr>)"
  using state_changed_no_proxy [OF handled_verbs_members(1) setup_ui_no_proxy, of upd ei em ec er ci cr g uuids]
        state_changed_no_proxy [OF handled_verbs_members(2) setup_ui_no_proxy, of upd ei em ec er ci cr g uuids]
        state_changed_no_proxy [OF handled_verbs_members(3) setup_ui_no_proxy, of upd ei em ec er ci cr g uuids]
        state_changed_no_proxy [OF handled_verbs_members(5) setup_ui_no_proxy, of upd ei em ec er ci cr g uuids]
  by (simp add: resets_values)

section \<open>History menus: the cap\<close>

text \<open>
  C7: when the cursor moves to index \<^verbatim>\<open>i\<close> of a history of \<^verbatim>\<open>n\<close> commands, the undo
  menu lists the \<^verbatim>\<open>min i 10\<close> commands before the cursor, nearest first, and the redo menu
  the \<^verbatim>\<open>min (n - i) 10\<close> commands from the cursor on; a disabled entry follows exactly when
  more commands exist beyond the ten, and its text gives their number, \<^verbatim>\<open>i - 10\<close> for undo
  and \<^verbatim>\<open>n - i - 10\<close> for redo.
\<close>

theorem history_menus_capped_at_ten:
  "i \<le> length (commands (undo g)) \<Longrightarrow>
   \<exists>g'. undo_redo_index_changed (int i) g = Returns g' \<and> undo g' = undo g
     \<and> undo_menu g' =
          map (\<lambda>k. \<lparr>action_text = commands (undo g) ! (i - 1 - k), enabled = True,
                     triggered = Some (SetIndex_Lambda (int i - 1 - int k) 0)\<rparr>) [0..<min i 10]
          @ (if 10 < i
             then [\<lparr>action_text = str_int (int i - 10) @ '' more undo actions'', enabled = False,
                    triggered = None\<rparr>]
             else [])
     \<and> redo_menu g' =
          map (\<lambda>k. \<lparr>action_text = commands (undo g) ! (i + k), enabled = True,
                     triggered = Some (SetIndex_Lambda (int i + int k) 1)\<rparr>)
            [0..<min (length (commands (undo g)) - i) 10]
          @ (if i + 10 < length (commands (undo g))
             then [\<lparr>action_text = str_int (int (length (commands (undo g))) - int i - 10) @ '' more redo actions'',
                    enabled = False, triggered = None\<rparr>]
             else [])"
  using index_changed_menus [of i g] by (simp add: setMenu_fields)

theorem history_menus_capped_at_ten_witness:
  "(12::nat) \<le> length (commands (undo example_history))
   \<and> (\<exists>g'. undo_redo_index_changed 12 example_history = Returns g'
        \<and> map action_text (undo_menu g') =
            [''c11'', ''c10'', ''c9'', ''c8'', ''c7'', ''c6'', ''c5'', ''c4'', ''c3'', ''c2'', ''2 more undo actions'']
        \<and> map enabled (undo_menu g') =
            [True, True, True, True, True, True, True, True, True, True, False]
        \<and> map action_text (redo_menu g') =
            [''c12'', ''c13'', ''c14'', ''c15'', ''c16'', ''c17'', ''c18'', ''c19'', ''c20'', ''c21'', ''3 more redo actions''])"
  using history_menus_capped_at_ten [of 12 example_history]
  by (auto simp add: example_history_def init_def str_int_def upt_rec [of 0] upt_rec [of "Suc _"] comp_def)

section \<open>What the selection sync selects\<close>

lemma cells_of_Invalid: "cells_of w k Invalid = []"
  by (cases k) (simp_all add: cells_of_def)

lemma select_selection:
  assumes "programmatic_select g"
  shows "\<exists>g'. select upd w k i g = Returns g'
           \<and> view_selection k g' = view_selection k g @ filter (\<lambda>c. c \<notin> set (view_selection k g)) (cells_of w k i)"
proof -
  let ?g1 = "g\<lparr>view_log := view_log g @ [Select k i]\<rparr>"
  let ?new = "filter (\<lambda>c. c \<notin> set (view_selection k g)) (cells_of w k i)"
  have g1: "programmatic_select ?g1" "view_selection k ?g1 = view_selection k g"
    using assms by (simp_all add: view_selection_def split: kind.splits)
  have unfold: "select upd w k i g =
      (if ?new = [] then Returns ?g1
       else emit_selectionChanged upd w k (set_view_selection k (view_selection k g @ ?new) ?g1))"
    unfolding select_def Let_def g1(2) cells_of_def by simp
  show ?thesis
  proof (cases "?new = []")
    case True
    then show ?thesis using unfold g1(2) by simp
  next
    case False
    then have "select upd w k i g = Returns (set_view_selection k (view_selection k g @ ?new) ?g1)"
      using unfold g1(1) by (simp add: emit_guarded set_view_selection_fields)
    then show ?thesis by (simp add: set_view_selection_fields)
  qed
qed

lemma select_all_selection:
  "programmatic_select g \<Longrightarrow>
   \<exists>g'. select_all upd w k is g = Returns g' \<and> programmatic_select g'
      \<and> view_selection k g' = selected_after w k (view_selection k g) is"
proof (induction "is" arbitrary: g)
  case Nil
  then show ?case by simp
next
  case (Cons i "is")
  from select_guarded [OF Cons.prems, of upd w k i]
  obtain g1 where g1: "select upd w k i g = Returns g1" "programmatic_select g1"
    by blast
  from select_selection [OF Cons.prems, of upd w k i] g1(1)
  have sel: "view_selection k g1 = view_selection k g @ filter (\<lambda>c. c \<notin> set (view_selection k g)) (cells_of w k i)"
    by simp
  from Cons.IH [OF g1(2)]
  obtain g2 where "select_all upd w k is g1 = Returns g2" "programmatic_select g2"
      "view_selection k g2 = selected_after w k (view_selection k g1) is"
    by blast
  then show ?case using g1(1) sel by simp
qed

lemma guarded_resync_selection:
  assumes "programmatic_select g"
  shows "\<exists>g'. obind (clearSelection upd w k g)
                 (\<lambda>g2. obind (select_all upd w k is g2) (\<lambda>g3. Returns (g3\<lparr>programmatic_select := False\<rparr>)))
               = Returns g'
            \<and> view_selection k g' = selected_after w k [] is"
proof -
  from clearSelection_guarded [OF assms, of upd w k]
  obtain g2 where g2: "clearSelection upd w k g = Returns g2" "programmatic_select g2"
      "view_selection k g2 = []"
    by blast
  from select_all_selection [OF g2(2), of upd w k "is"]
  obtain g3 where g3: "select_all upd w k is g2 = Returns g3"
      "view_selection k g3 = selected_after w k (view_selection k g2) is"
    by blast
  have "view_selection k (g3\<lparr>programmatic_select := False\<rparr>) = view_selection k g3"
    by (simp add: view_selection_def split: kind.splits)
  then show ?thesis using g2 g3 by simp
qed

lemma sync_selection_selects:
  assumes "ty = Event \<or> catalogue_sort_filter_model w \<noteq> None" and "action \<in> set handled_verbs"
  shows "\<exists>g'. sync_selection upd w g action ty uuids = Returns g'
            \<and> view_selection ty g' = selected_after w ty [] (sync_indexes w ty uuids)"
proof (cases ty)
  case Event
  let ?g1 = "(if action \<notin> set select_verbs then g\<lparr>view_log := view_log g @ [Model_Reset Event]\<rparr> else g)
               \<lparr>programmatic_select := True\<rparr>"
  have guard: "programmatic_select ?g1" by simp
  from guarded_resync_selection [OF guard, of upd w Event
         "map (events_sort_mapFromSource w) (map (events_index_from_uuid w) uuids)"]
  show ?thesis
    using Event assms(2) unfolding sync_selection_def Let_def sync_indexes_def by simp
next
  case Catalogue
  then obtain m where m: "catalogue_sort_filter_model w = Some m" using assms(1) by auto
  let ?g1 = "(if action \<notin> set select_verbs then g\<lparr>view_log := view_log g @ [Model_Reset Catalogue]\<rparr> else g)
               \<lparr>programmatic_select := True\<rparr>"
  have guard: "programmatic_select ?g1" by simp
  from guarded_resync_selection [OF guard, of upd w Catalogue
         "map m (map (catalogue_index_from_uuid w) uuids)"]
  show ?thesis
    using Catalogue m assms(2) unfolding sync_selection_def Let_def sync_indexes_def by simp
qed

lemma selected_after_skips_invalid:
  "\<forall>u\<in>set us. \<not> P u \<longrightarrow> f u = Invalid \<Longrightarrow>
   selected_after w k sel (map f us) = selected_after w k sel (map f (filter P us))"
proof (induction us arbitrary: sel)
  case Nil
  then show ?case by simp
next
  case (Cons u us)
  then show ?case by (cases "P u") (simp_all add: cells_of_Invalid)
qed

lemma sync_indexes_map:
  assumes "ty = Event \<or> catalogue_sort_filter_model w \<noteq> None"
  shows "\<exists>f. \<forall>us. sync_indexes w ty us = map f us"
proof (cases ty)
  case Event
  then have "\<forall>us. sync_indexes w ty us = map (\<lambda>u. events_sort_mapFromSource w (events_index_from_uuid w u)) us"
    by (simp add: sync_indexes_def)
  then show ?thesis by blast
next
  case Catalogue
  then obtain m where m: "catalogue_sort_filter_model w = Some m" using assms by auto
  then have "\<forall>us. sync_indexes w ty us = map (\<lambda>u. m (catalogue_index_from_uuid w u)) us"
    using Catalogue by (simp add: sync_indexes_def)
  then show ?thesis by blast
qed

lemma sync_skips_stale:
  assumes "ty = Event \<or> catalogue_sort_filter_model w \<noteq> None"
    and "\<forall>u\<in>set uuids. st u = None \<longrightarrow> sync_indexes w ty [u] = [Invalid]"
  shows "selected_after w ty sel (sync_indexes w ty uuids)
       = selected_after w ty sel (sync_indexes w ty (filter (\<lambda>u. st u \<noteq> None) uuids))"
proof -
  from sync_indexes_map [OF assms(1)]
  obtain f where f: "\<And>us. sync_indexes w ty us = map f us" by blast
  have "\<forall>u\<in>set uuids. \<not> st u \<noteq> None \<longrightarrow> f u = Invalid"
    using assms(2) f by simp
  from selected_after_skips_invalid [OF this, of w ty sel]
  show ?thesis by (simp add: f)
qed

lemma update_enablement_views:
  "\<exists>g'. state_of (update_enablement g action uuids) = Some g'
        \<and> catalogues_selection g' = catalogues_selection g \<and> events_selection g' = events_selection g
        \<and> view_log g' = view_log g"
proof (cases "action = ''active_select''")
  case False
  then show ?thesis by (simp add: update_enablement_other_verb)
next
  case True
  then show ?thesis
    by (cases "enable_loop (store g) uuids (False, False)")
       (auto simp add: update_enablement_def Let_def)
qed

section \<open>Stale UUIDs\<close>

text \<open>
  C8, as the code has it. Take a list in which the UUIDs that no longer resolve get an
  invalid index from the view's index function. In the selection sync, for every handled
  verb (where the handler reaches the sync), each UUID is handed to the view in list order
  and the view ends up with the selection of the resolving UUIDs alone: the stale ones are
  skipped and the others still selected. A notification other than \<^verbatim>\<open>active_select\<close>
  then returns. In the enablement recomputation of an \<^verbatim>\<open>active_select\<close> a stale UUID is
  not skipped: after the completed sync the failed lookup leaves the handler as an
  exception, and restore, move to trash, delete permanently and export stay disabled,
  whatever the other UUIDs are.
\<close>

theorem stale_uuid_skipped_by_sync_only:
  "ty = Event \<or> catalogue_sort_filter_model w \<noteq> None \<Longrightarrow>
   action \<in> set handled_verbs \<Longrightarrow>
   \<forall>u\<in>set uuids. store g u = None \<longrightarrow> sync_indexes w ty [u] = [Invalid] \<Longrightarrow>
   \<exists>g1. sync_selection upd w g action ty uuids = Returns g1
      \<and> view_log g1 = view_log g @ resets action ty @ Clear_Selection ty # map (Select ty) (sync_indexes w ty uuids)
      \<and> view_selection ty g1
          = selected_after w ty [] (sync_indexes w ty (filter (\<lambda>u. store g u \<noteq> None) uuids))
      \<and> (action \<noteq> ''active_select'' \<longrightarrow> state_changed upd w g action ty uuids = Returns g1)
      \<and> (action = ''active_select'' \<and> (\<exists>u\<in>set uuids. store g u = None) \<longrightarrow>
           (\<exists>g'. state_changed upd w g action ty uuids = Raises EntityNotFound g'
               \<and> view_selection ty g' = view_selection ty g1
               \<and> \<not> restore_from_trash_action g' \<and> \<not> move_to_trash_action g'
               \<and> \<not> delete_action g' \<and> \<not> export_action g'))"
proof -
  assume r: "ty = Event \<or> catalogue_sort_filter_model w \<noteq> None"
    and v: "action \<in> set handled_verbs"
    and inv: "\<forall>u\<in>set uuids. store g u = None \<longrightarrow> sync_indexes w ty [u] = [Invalid]"
  from sync_selection_reaching [OF r v, of upd g uuids]
  obtain g1 where g1: "sync_selection upd w g action ty uuids = Returns g1"
      "same_outside_views g g1"
      "view_log g1 = view_log g @ resets action ty @ Clear_Selection ty # map (Select ty) (sync_indexes w ty uuids)"
    by blast
  from sync_selection_selects [OF r v, of upd g uuids] g1(1)
  have "view_selection ty g1 = selected_after w ty [] (sync_indexes w ty uuids)" by simp
  then have sel: "view_selection ty g1
          = selected_after w ty [] (sync_indexes w ty (filter (\<lambda>u. store g u \<noteq> None) uuids))"
    using sync_skips_stale [OF r inv, of "[]"] by simp
  have other: "action \<noteq> ''active_select'' \<longrightarrow> state_changed upd w g action ty uuids = Returns g1"
    using g1(1) by (simp add: state_changed_def update_enablement_other_verb)
  have active: "action = ''active_select'' \<and> (\<exists>u\<in>set uuids. store g u = None) \<longrightarrow>
           (\<exists>g'. state_changed upd w g action ty uuids = Raises EntityNotFound g'
               \<and> view_selection ty g' = view_selection ty g1
               \<and> \<not> restore_from_trash_action g' \<and> \<not> move_to_trash_action g'
               \<and> \<not> delete_action g' \<and> \<not> export_action g')"
  proof
    assume h: "action = ''active_select'' \<and> (\<exists>u\<in>set uuids. store g u = None)"
    then obtain u where u: "u \<in> set uuids" "store g u = None" by blast
    have st: "store g1 u = None" using g1(2) u(2) by (simp add: same_outside_views_def)
    from update_enablement_stale [of u uuids g1, OF u(1) st]
    obtain g' where g': "update_enablement g1 ''active_select'' uuids = Raises EntityNotFound g'"
       "\<not> restore_from_trash_action g'" "\<not> move_to_trash_action g'"
       "\<not> delete_action g'" "\<not> export_action g'"
      by blast
    from update_enablement_views [of g1 "''active_select''" uuids] g'(1)
    have "catalogues_selection g' = catalogues_selection g1" "events_selection g' = events_selection g1"
      by simp_all
    then have "view_selection ty g' = view_selection ty g1"
      by (simp add: view_selection_def split: kind.splits)
    then show "\<exists>g'. state_changed upd w g action ty uuids = Raises EntityNotFound g'
               \<and> view_selection ty g' = view_selection ty g1
               \<and> \<not> restore_from_trash_action g' \<and> \<not> move_to_trash_action g'
               \<and> \<not> delete_action g' \<and> \<not> export_action g'"
      using g' g1(1) h by (simp add: state_changed_def)
  qed
  from g1(1) g1(3) sel other active show ?thesis by blast
qed

theorem stale_uuid_skipped_by_sync_only_witness:
  "(Event = Event \<or> catalogue_sort_filter_model example_widgets \<noteq> None)
   \<and> ''active_select'' \<in> set handled_verbs \<and> ''deleted'' \<in> set handled_verbs
   \<and> store (init example_store) ''gone'' = None
   \<and> sync_indexes example_widgets Event [''gone''] = [Invalid]
   \<and> map_option removed (store (init example_store) ''e1'') = Some False
   \<and> (\<exists>g'. state_changed (updated 0 example_widgets) example_widgets (init example_store)
              ''active_select'' Event [''gone'', ''e1''] = Raises EntityNotFound g'
          \<and> view_selection Event g' = [Index 0 0, Index 0 1]
          \<and> \<not> move_to_trash_action g' \<and> \<not> delete_action g')
   \<and> (\<exists>g'. state_changed (updated 0 example_widgets) example_widgets (init example_store)
              ''deleted'' Event [''gone'', ''e1''] = Returns g'
          \<and> view_selection Event g' = [Index 0 0, Index 0 1]
          \<and> view_log g' = [Model_Reset Event, Clear_Selection Event, Select Event Invalid,
                            Select Event (Index 0 0)])"
proof -
  have r: "Event = Event \<or> catalogue_sort_filter_model example_widgets \<noteq> None" by simp
  have inv: "\<forall>u\<in>set [''gone'', ''e1'']. store (init example_store) u = None
          \<longrightarrow> sync_indexes example_widgets Event [u] = [Invalid]"
    by (simp add: init_fields example_facts sync_indexes_def example_widgets_def setup_ui_def
          example_events_index_def)
  have idx: "sync_indexes example_widgets Event [''gone'', ''e1''] = [Invalid, Index 0 0]"
    by (simp add: sync_indexes_def example_widgets_def setup_ui_def example_events_index_def)
  have sel: "selected_after example_widgets Event []
               (sync_indexes example_widgets Event (filter (\<lambda>u. store (init example_store) u \<noteq> None) [''gone'', ''e1'']))
             = [Index 0 0, Index 0 1]"
    by (simp add: init_fields example_facts sync_indexes_def example_widgets_def setup_ui_def
          example_events_index_def cells_of_def upt_rec [of 0] upt_rec [of "Suc _"])
  from stale_uuid_skipped_by_sync_only
         [OF r handled_verbs_members(1) inv, of "updated 0 example_widgets"]
  have active: "\<exists>g'. state_changed (updated 0 example_widgets) example_widgets (init example_store)
              ''active_select'' Event [''gone'', ''e1''] = Raises EntityNotFound g'
          \<and> view_selection Event g' = [Index 0 0, Index 0 1]
          \<and> \<not> move_to_trash_action g' \<and> \<not> delete_action g'"
    unfolding sel by (auto simp add: init_fields example_facts)
  from stale_uuid_skipped_by_sync_only
         [OF r handled_verbs_members(6) inv, of "updated 0 example_widgets"]
  have deleted: "\<exists>g'. state_changed (updated 0 example_widgets) example_widgets (init example_store)
              ''deleted'' Event [''gone'', ''e1''] = Returns g'
          \<and> view_selection Event g' = [Index 0 0, Index 0 1]
          \<and> view_log g' = [Model_Reset Event, Clear_Selection Event, Select Event Invalid,
                            Select Event (Index 0 0)]"
    unfolding sel idx by (auto simp add: init_fields resets_values)
  have gone: "sync_indexes example_widgets Event [''gone''] = [Invalid]"
    by (simp add: sync_indexes_def example_widgets_def setup_ui_def example_events_index_def)
  show ?thesis
    using r gone active deleted handled_verbs_members(1) handled_verbs_members(6)
    by (simp add: init_fields example_facts)
qed

text \<open>
  C8 as stated fails: with the stale UUID \<^verbatim>\<open>gone\<close> before the live, untrashed event
  \<^verbatim>\<open>e1\<close>, the handler ends with the lookup's exception and "move to trash",
  "delete permanently" and "export" are disabled; had \<^verbatim>\<open>gone\<close> been skipped and
  \<^verbatim>\<open>e1\<close> processed, all three would be enabled.
\<close>

theorem stale_uuid_not_skipped:
  "example_store ''gone'' = None
   \<and> map_option removed (example_store ''e1'') = Some False
   \<and> raised (state_changed (updated 0 example_widgets) example_widgets (init example_store)
               ''active_select'' Event [''gone'', ''e1''])
      = Some EntityNotFound
   \<and> map_option move_to_trash_action
        (state_of (state_changed (updated 0 example_widgets) example_widgets (init example_store)
                     ''active_select'' Event [''gone'', ''e1'']))
      = Some False
   \<and> map_option delete_action
        (state_of (state_changed (updated 0 example_widgets) example_widgets (init example_store)
                     ''active_select'' Event [''gone'', ''e1'']))
      = Some False
   \<and> map_option export_action
        (state_of (state_changed (updated 0 example_widgets) example_widgets (init example_store)
                     ''active_select'' Event [''gone'', ''e1'']))
      = Some False"
proof -
  from state_changed_active_select
         [of Event example_widgets "updated 0 example_widgets" "init example_store" "[''gone'', ''e1'']"]
  obtain g1 where g1: "state_changed (updated 0 example_widgets) example_widgets (init example_store)
         ''active_select'' Event [''gone'', ''e1'']
       = update_enablement g1 ''active_select'' [''gone'', ''e1'']" "same_outside_views (init example_store) g1"
    by blast
  have "store g1 ''gone'' = None"
    using g1(2) by (simp add: same_outside_views_def example_facts init_fields)
  from update_enablement_stale [of "''gone''" "[''gone'', ''e1'']" g1, OF _ this]
  obtain g' where "update_enablement g1 ''active_select'' [''gone'', ''e1''] = Raises EntityNotFound g'"
     "\<not> move_to_trash_action g'" "\<not> delete_action g'" "\<not> export_action g'"
    by auto
  then show ?thesis using g1(1) by (simp add: example_facts)
qed

section \<open>History menus: the captured index\<close>

text \<open>
  C9: each entry of the rebuilt menus holds the loop index it was created for. The entry
  at position \<^verbatim>\<open>p\<close> shows the text of the command at the \<^verbatim>\<open>p\<close>-th index of its range,
  and triggering it calls \<^verbatim>\<open>setIndex\<close> with that index in the undo menu and with that
  index plus one in the redo menu. The indexes of a range are pairwise distinct, so no two
  entries of a menu jump to the same index.
\<close>

theorem menu_entries_keep_their_index:
  "undo_redo_index_changed idx g = Returns g' \<Longrightarrow>
     (\<forall>p < length (py_range (idx - 1) (max 0 (idx - 10) - 1) (- 1)).
         trigger (undo_menu g' ! p) h = setIndex (py_range (idx - 1) (max 0 (idx - 10) - 1) (- 1) ! p) h
       \<and> triggered (undo_menu g' ! p) = Some (SetIndex_Lambda (py_range (idx - 1) (max 0 (idx - 10) - 1) (- 1) ! p) 0)
       \<and> command (undo g) (py_range (idx - 1) (max 0 (idx - 10) - 1) (- 1) ! p)
           = Some (action_text (undo_menu g' ! p)))
   \<and> (\<forall>p < length (py_range idx (min (count (undo g)) (idx + 10)) 1).
         trigger (redo_menu g' ! p) h = setIndex (py_range idx (min (count (undo g)) (idx + 10)) 1 ! p + 1) h
       \<and> triggered (redo_menu g' ! p) = Some (SetIndex_Lambda (py_range idx (min (count (undo g)) (idx + 10)) 1 ! p) 1)
       \<and> command (undo g) (py_range idx (min (count (undo g)) (idx + 10)) 1 ! p)
           = Some (action_text (redo_menu g' ! p)))
   \<and> distinct (py_range (idx - 1) (max 0 (idx - 10) - 1) (- 1))
   \<and> distinct (py_range idx (min (count (undo g)) (idx + 10)) 1)"
proof -
  assume run: "undo_redo_index_changed idx g = Returns g'"
  let ?U = "py_range (idx - 1) (max 0 (idx - 10) - 1) (- 1)"
  let ?R = "py_range idx (min (count (undo g)) (idx + 10)) 1"
  from obind_Returns [OF run [unfolded undo_redo_index_changed_def Let_def]]
  obtain g1 where first: "create_undo_redo_action_menu_on_toolbutton ?U Undo_Button 0 (max 0 (idx - 10) \<noteq> 0)
         (str_int (max 0 (idx - 10)) @ '' more undo actions'') g = Returns g1"
    and second: "create_undo_redo_action_menu_on_toolbutton
         (py_range idx (min (count (undo g1)) (idx + 10)) 1) Redo_Button 1
         (min (count (undo g1)) (idx + 10) \<noteq> count (undo g1))
         (str_int (count (undo g1) - min (count (undo g1)) (idx + 10)) @ '' more redo actions'') g1 = Returns g'"
    by blast
  from create_menu_Returns [OF first]
  obtain m1 where m1: "menu_actions (undo g) ?U 0 = Inr m1"
    and g1: "g1 = setMenu Undo_Button
        (if max 0 (idx - 10) \<noteq> 0
         then m1 @ [\<lparr>action_text = str_int (max 0 (idx - 10)) @ '' more undo actions'', enabled = False, triggered = None\<rparr>]
         else m1) g"
    by blast
  have u1: "undo g1 = undo g" using g1 by (simp add: setMenu_fields)
  from create_menu_Returns [OF second]
  obtain m2 where m2: "menu_actions (undo g) ?R 1 = Inr m2"
    and g': "g' = setMenu Redo_Button
        (if min (count (undo g)) (idx + 10) \<noteq> count (undo g)
         then m2 @ [\<lparr>action_text = str_int (count (undo g) - min (count (undo g)) (idx + 10)) @ '' more redo actions'',
                      enabled = False, triggered = None\<rparr>]
         else m2) g1"
    unfolding u1 by blast
  have um: "undo_menu g' =
        (if max 0 (idx - 10) \<noteq> 0
         then m1 @ [\<lparr>action_text = str_int (max 0 (idx - 10)) @ '' more undo actions'', enabled = False, triggered = None\<rparr>]
         else m1)"
    unfolding g' g1 by (simp only: setMenu_fields)
  have rm: "redo_menu g' =
        (if min (count (undo g)) (idx + 10) \<noteq> count (undo g)
         then m2 @ [\<lparr>action_text = str_int (count (undo g) - min (count (undo g)) (idx + 10)) @ '' more redo actions'',
                      enabled = False, triggered = None\<rparr>]
         else m2)"
    unfolding g' by (simp only: setMenu_fields)
  have undo_part: "\<forall>p < length ?U.
         trigger (undo_menu g' ! p) h = setIndex (?U ! p) h
       \<and> triggered (undo_menu g' ! p) = Some (SetIndex_Lambda (?U ! p) 0)
       \<and> command (undo g) (?U ! p) = Some (action_text (undo_menu g' ! p))"
    unfolding um using menu_entry_trigger [OF m1] by simp
  have redo_part: "\<forall>p < length ?R.
         trigger (redo_menu g' ! p) h = setIndex (?R ! p + 1) h
       \<and> triggered (redo_menu g' ! p) = Some (SetIndex_Lambda (?R ! p) 1)
       \<and> command (undo g) (?R ! p) = Some (action_text (redo_menu g' ! p))"
    unfolding rm using menu_entry_trigger [OF m2] by simp
  show ?thesis
    using undo_part redo_part py_range_distinct by blast
qed

theorem menu_entries_keep_their_index_witness:
  "\<exists>g'. undo_redo_index_changed 12 example_history = Returns g'
      \<and> trigger (undo_menu g' ! 0) example_history = setIndex 11 example_history
      \<and> trigger (undo_menu g' ! 1) example_history = setIndex 10 example_history
      \<and> trigger (redo_menu g' ! 0) example_history = setIndex 13 example_history
      \<and> trigger (redo_menu g' ! 1) example_history = setIndex 14 example_history"
proof -
  have "(12::nat) \<le> length (commands (undo example_history))"
    by (simp add: example_history_def)
  from index_changed_menus [OF this]
  obtain g' where run: "undo_redo_index_changed 12 example_history = Returns g'"
    by auto
  have n: "count (undo example_history) = 25"
    by (simp add: count_def example_history_def)
  have U: "py_range (12 - 1) (max 0 (12 - 10) - 1) (- 1) = [11, 10, 9, 8, 7, 6, 5, 4, 3, 2]"
    by (simp add: py_range_def upt_rec [of 0] upt_rec [of "Suc _"])
  have R: "py_range 12 (min (count (undo example_history)) (12 + 10)) 1 = [12, 13, 14, 15, 16, 17, 18, 19, 20, 21]"
    by (simp add: n py_range_def upt_rec [of 0] upt_rec [of "Suc _"])
  from menu_entries_keep_their_index [OF run, of example_history]
  show ?thesis
    unfolding U R using run by auto
qed

section \<open>Public methods and the undo history\<close>

lemma updated_event_returns:
  assumes "action \<in> set handled_verbs" and "action \<noteq> ''active_select''"
  shows "\<exists>g'. updated (Suc n) w g action Event uuids = Returns g'
           \<and> notified g' = notified g @ [(action, Event, uuids)] \<and> undo g' = undo g \<and> store g' = store g"
proof -
  let ?g0 = "external_signal_emission (g\<lparr>notified := notified g @ [(action, Event, uuids)]\<rparr>) action Event uuids"
  from sync_selection_events [OF assms(1), of "updated n w" w ?g0 uuids]
  obtain g' where g': "sync_selection (updated n w) w ?g0 action Event uuids = Returns g'"
      "same_outside_views ?g0 g'" by blast
  have "updated (Suc n) w g action Event uuids = Returns g'"
    using g'(1) assms(2) by (simp add: state_changed_def update_enablement_other_verb)
  then show ?thesis
    using g'(2) by (simp add: same_outside_views_def external_signal_emission_frame)
qed

text \<open>
  C10: \<^verbatim>\<open>update_event_range\<close>, \<^verbatim>\<open>create_event\<close> and \<^verbatim>\<open>move_to_trash\<close> leave the undo
  stack (commands, cursor and clean mark) exactly as it was on every call, whether the call
  returns or raises: nothing is pushed, so the history holds no command that could revert
  the mutation. A call whose lookup succeeds and whose mutation the store accepts changes
  the entity and broadcasts one \<^verbatim>\<open>changed\<close>, \<^verbatim>\<open>inserted\<close> or \<^verbatim>\<open>moved\<close> action; a
  mutation the store refuses ends the call with the store's exception and no broadcast,
  the first assignment of \<^verbatim>\<open>update_event_range\<close> staying in effect when only the second
  is refused.
\<close>

theorem public_methods_bypass_undo_history:
  "(\<exists>g'. state_of (update_event_range (Suc n) w u s t g) = Some g' \<and> undo g' = undo g)
   \<and> (\<forall>e e1 e2. store g u = Some e \<and> set_start e s = Inr e1 \<and> set_stop e1 t = Inr e2 \<longrightarrow>
         (\<exists>g'. update_event_range (Suc n) w u s t g = Returns g'
              \<and> notified g' = notified g @ [(''changed'', Event, [u])]
              \<and> store g' = (store g)(u \<mapsto> e2) \<and> undo g' = undo g))
   \<and> (\<forall>e x. store g u = Some e \<and> set_start e s = Inl x \<longrightarrow>
         update_event_range (Suc n) w u s t g = Raises x g)
   \<and> (\<forall>e e1 x. store g u = Some e \<and> set_start e s = Inr e1 \<and> set_stop e1 t = Inl x \<longrightarrow>
         update_event_range (Suc n) w u s t g = Raises x (g\<lparr>store := (store g)(u \<mapsto> e1)\<rparr>))
   \<and> (\<exists>g'. state_of (create_event (Suc n) w s t a c new g) = Some g' \<and> undo g' = undo g)
   \<and> (\<forall>cat ev. store g c = Some cat \<and> entity_type cat = Catalogue \<and> session_create_event s t a = Inr ev \<longrightarrow>
         (\<exists>g'. create_event (Suc n) w s t a c new g = Returns g'
              \<and> notified g' = notified g @ [(''inserted'', Event, [new])]
              \<and> store g' = (store g)(new \<mapsto> ev, c \<mapsto> cat\<lparr>events := events cat @ [new]\<rparr>)
              \<and> undo g' = undo g))
   \<and> (\<forall>cat x. store g c = Some cat \<and> entity_type cat = Catalogue \<and> session_create_event s t a = Inl x \<longrightarrow>
         create_event (Suc n) w s t a c new g = Raises x g)
   \<and> (\<exists>g'. state_of (move_to_trash (Suc n) w u g) = Some g' \<and> undo g' = undo g
        \<and> (\<forall>e. store g u = Some e \<longrightarrow>
             notified g' = notified g @ [(''moved'', entity_type e, [u])]
           \<and> store g' = (store g)(u \<mapsto> e\<lparr>removed := True\<rparr>)))"
proof -
  have range_ok: "\<forall>e e1 e2. store g u = Some e \<and> set_start e s = Inr e1 \<and> set_stop e1 t = Inr e2 \<longrightarrow>
         (\<exists>g'. update_event_range (Suc n) w u s t g = Returns g'
              \<and> notified g' = notified g @ [(''changed'', Event, [u])]
              \<and> store g' = (store g)(u \<mapsto> e2) \<and> undo g' = undo g)"
  proof (intro allI impI)
    fix e e1 e2
    assume h: "store g u = Some e \<and> set_start e s = Inr e1 \<and> set_stop e1 t = Inr e2"
    let ?g2 = "g\<lparr>store := (store g)(u \<mapsto> e2)\<rparr>"
    from updated_event_returns [OF handled_verbs_members(3), of n w ?g2 "[u]"]
    obtain g' where "updated (Suc n) w ?g2 ''changed'' Event [u] = Returns g'"
      "notified g' = notified ?g2 @ [(''changed'', Event, [u])]" "undo g' = undo ?g2" "store g' = store ?g2"
      by auto
    then show "\<exists>g'. update_event_range (Suc n) w u s t g = Returns g'
              \<and> notified g' = notified g @ [(''changed'', Event, [u])]
              \<and> store g' = (store g)(u \<mapsto> e2) \<and> undo g' = undo g"
      using h by (simp add: update_event_range_def get_entity_from_uuid_safe_def Let_def)
  qed
  have range_first: "\<forall>e x. store g u = Some e \<and> set_start e s = Inl x \<longrightarrow>
         update_event_range (Suc n) w u s t g = Raises x g"
    by (simp add: update_event_range_def get_entity_from_uuid_safe_def)
  have range_second: "\<forall>e e1 x. store g u = Some e \<and> set_start e s = Inr e1 \<and> set_stop e1 t = Inl x \<longrightarrow>
         update_event_range (Suc n) w u s t g = Raises x (g\<lparr>store := (store g)(u \<mapsto> e1)\<rparr>)"
    by (simp add: update_event_range_def get_entity_from_uuid_safe_def Let_def)
  have range_frame: "\<exists>g'. state_of (update_event_range (Suc n) w u s t g) = Some g' \<and> undo g' = undo g"
  proof (cases "store g u")
    case None
    then show ?thesis by (simp add: update_event_range_def get_entity_from_uuid_safe_def)
  next
    case (Some e)
    show ?thesis
    proof (cases "set_start e s")
      case (Inl x)
      then show ?thesis using range_first Some by simp
    next
      case (Inr e1)
      show ?thesis
      proof (cases "set_stop e1 t")
        case (Inl x)
        then show ?thesis using range_second Some Inr by simp
      next
        case (Inr e2)
        then show ?thesis using range_ok Some \<open>set_start e s = Inr e1\<close> by auto
      qed
    qed
  qed
  have create_ok: "\<forall>cat ev. store g c = Some cat \<and> entity_type cat = Catalogue \<and> session_create_event s t a = Inr ev \<longrightarrow>
         (\<exists>g'. create_event (Suc n) w s t a c new g = Returns g'
              \<and> notified g' = notified g @ [(''inserted'', Event, [new])]
              \<and> store g' = (store g)(new \<mapsto> ev, c \<mapsto> cat\<lparr>events := events cat @ [new]\<rparr>)
              \<and> undo g' = undo g)"
  proof (intro allI impI)
    fix cat ev
    assume h: "store g c = Some cat \<and> entity_type cat = Catalogue \<and> session_create_event s t a = Inr ev"
    let ?g1 = "g\<lparr>store := (store g)(new \<mapsto> ev, c \<mapsto> cat\<lparr>events := events cat @ [new]\<rparr>)\<rparr>"
    from updated_event_returns [OF handled_verbs_members(5), of n w ?g1 "[new]"]
    obtain g' where "updated (Suc n) w ?g1 ''inserted'' Event [new] = Returns g'"
      "notified g' = notified ?g1 @ [(''inserted'', Event, [new])]" "undo g' = undo ?g1" "store g' = store ?g1"
      by auto
    then show "\<exists>g'. create_event (Suc n) w s t a c new g = Returns g'
              \<and> notified g' = notified g @ [(''inserted'', Event, [new])]
              \<and> store g' = (store g)(new \<mapsto> ev, c \<mapsto> cat\<lparr>events := events cat @ [new]\<rparr>)
              \<and> undo g' = undo g"
      using h by (simp add: create_event_def get_entity_from_uuid_safe_def Let_def)
  qed
  have create_refused: "\<forall>cat x. store g c = Some cat \<and> entity_type cat = Catalogue \<and> session_create_event s t a = Inl x \<longrightarrow>
         create_event (Suc n) w s t a c new g = Raises x g"
    by (simp add: create_event_def get_entity_from_uuid_safe_def)
  have create_frame: "\<exists>g'. state_of (create_event (Suc n) w s t a c new g) = Some g' \<and> undo g' = undo g"
  proof (cases "store g c")
    case None
    then show ?thesis by (simp add: create_event_def get_entity_from_uuid_safe_def)
  next
    case (Some cat)
    show ?thesis
    proof (cases "entity_type cat = Catalogue")
      case False
      then show ?thesis using Some by (simp add: create_event_def get_entity_from_uuid_safe_def)
    next
      case True
      show ?thesis
      proof (cases "session_create_event s t a")
        case (Inl x)
        then show ?thesis using create_refused Some True by simp
      next
        case (Inr ev)
        then show ?thesis using create_ok Some True by auto
      qed
    qed
  qed
  have trash: "\<exists>g'. state_of (move_to_trash (Suc n) w u g) = Some g' \<and> undo g' = undo g
        \<and> (\<forall>e. store g u = Some e \<longrightarrow>
             notified g' = notified g @ [(''moved'', entity_type e, [u])]
           \<and> store g' = (store g)(u \<mapsto> e\<lparr>removed := True\<rparr>))"
  proof (cases "store g u")
    case None
    then show ?thesis
      by (simp add: move_to_trash_def get_entity_from_uuid_safe_def)
  next
    case (Some e)
    let ?g1 = "g\<lparr>store := (store g)(u \<mapsto> e\<lparr>removed := True\<rparr>)\<rparr>"
    from updated_total [of n w ?g1 "''moved''" "entity_type e" "[u]"]
    obtain g' where "state_of (updated (Suc n) w ?g1 ''moved'' (entity_type e) [u]) = Some g'"
      "notified g' = notified ?g1 @ [(''moved'', entity_type e, [u])]" "undo g' = undo ?g1" "store g' = store ?g1"
      by blast
    then show ?thesis
      using Some by (simp add: move_to_trash_def get_entity_from_uuid_safe_def)
  qed
  from range_frame range_ok range_first range_second create_frame create_ok create_refused trash
  show ?thesis by blast
qed

theorem public_methods_bypass_undo_history_witness:
  "store example_history ''e1'' = Some \<lparr>entity_type = Event, removed = False, start = 10, stop = 20, author = ''p'', events = []\<rparr>
   \<and> set_start \<lparr>entity_type = Event, removed = False, start = 10, stop = 20, author = ''p'', events = []\<rparr> 11 = Inr \<lparr>entity_type = Event, removed = False, start = 11, stop = 20, author = ''p'', events = []\<rparr> \<and> set_stop \<lparr>entity_type = Event, removed = False, start = 11, stop = 20, author = ''p'', events = []\<rparr> 19 = Inr \<lparr>entity_type = Event, removed = False, start = 11, stop = 19, author = ''p'', events = []\<rparr>
   \<and> (\<exists>g'. update_event_range (Suc 0) example_widgets ''e1'' 11 19 example_history = Returns g'
          \<and> notified g' = [(''changed'', Event, [''e1''])]
          \<and> store g' ''e1'' = Some \<lparr>entity_type = Event, removed = False, start = 11, stop = 19, author = ''p'', events = []\<rparr>
          \<and> undo g' = undo example_history)
   \<and> set_start \<lparr>entity_type = Event, removed = False, start = 10, stop = 20, author = ''p'', events = []\<rparr> 30 = Inl ValueError
   \<and> update_event_range (Suc 0) example_widgets ''e1'' 30 40 example_history = Raises ValueError example_history
   \<and> set_start \<lparr>entity_type = Event, removed = False, start = 10, stop = 20, author = ''p'', events = []\<rparr> 19 = Inr \<lparr>entity_type = Event, removed = False, start = 19, stop = 20, author = ''p'', events = []\<rparr> \<and> set_stop \<lparr>entity_type = Event, removed = False, start = 19, stop = 20, author = ''p'', events = []\<rparr> 11 = Inl ValueError
   \<and> update_event_range (Suc 0) example_widgets ''e1'' 19 11 example_history
        = Raises ValueError (example_history\<lparr>store := (store example_history)(''e1'' \<mapsto> \<lparr>entity_type = Event, removed = False, start = 19, stop = 20, author = ''p'', events = []\<rparr>)\<rparr>)
   \<and> store example_history ''A'' = Some \<lparr>entity_type = Catalogue, removed = False, start = 0, stop = 0, author = ''p'', events = [''e1'', ''e2'']\<rparr>
   \<and> session_create_event 11 19 ''p'' = Inr \<lparr>entity_type = Event, removed = False, start = 11, stop = 19, author = ''p'', events = []\<rparr>
   \<and> (\<exists>g'. create_event (Suc 0) example_widgets 11 19 ''p'' ''A'' ''e3'' example_history = Returns g'
          \<and> notified g' = [(''inserted'', Event, [''e3''])]
          \<and> store g' ''e3'' = Some \<lparr>entity_type = Event, removed = False, start = 11, stop = 19, author = ''p'', events = []\<rparr>
          \<and> store g' ''A'' = Some \<lparr>entity_type = Catalogue, removed = False, start = 0, stop = 0, author = ''p'', events = [''e1'', ''e2'', ''e3'']\<rparr>
          \<and> undo g' = undo example_history)
   \<and> session_create_event 19 11 ''p'' = Inl ValueError
   \<and> create_event (Suc 0) example_widgets 19 11 ''p'' ''A'' ''e3'' example_history = Raises ValueError example_history
   \<and> (\<exists>g'. state_of (move_to_trash (Suc 0) example_widgets ''e1'' example_history) = Some g'
          \<and> undo g' = undo example_history
          \<and> notified g' = [(''moved'', Event, [''e1''])]
          \<and> store g' ''e1'' = Some \<lparr>entity_type = Event, removed = True, start = 10, stop = 20, author = ''p'', events = []\<rparr>)"
proof -
  have f: "store example_history = example_store" "notified example_history = []"
    by (simp_all add: example_history_def init_def)
  have s1: "set_start \<lparr>entity_type = Event, removed = False, start = 10, stop = 20, author = ''p'', events = []\<rparr> 11 = Inr \<lparr>entity_type = Event, removed = False, start = 11, stop = 20, author = ''p'', events = []\<rparr>" "set_stop \<lparr>entity_type = Event, removed = False, start = 11, stop = 20, author = ''p'', events = []\<rparr> 19 = Inr \<lparr>entity_type = Event, removed = False, start = 11, stop = 19, author = ''p'', events = []\<rparr>"
    "set_start \<lparr>entity_type = Event, removed = False, start = 10, stop = 20, author = ''p'', events = []\<rparr> 30 = Inl ValueError"
    "set_start \<lparr>entity_type = Event, removed = False, start = 10, stop = 20, author = ''p'', events = []\<rparr> 19 = Inr \<lparr>entity_type = Event, removed = False, start = 19, stop = 20, author = ''p'', events = []\<rparr>" "set_stop \<lparr>entity_type = Event, removed = False, start = 19, stop = 20, author = ''p'', events = []\<rparr> 11 = Inl ValueError"
    "session_create_event 11 19 ''p'' = Inr \<lparr>entity_type = Event, removed = False, start = 11, stop = 19, author = ''p'', events = []\<rparr>" "session_create_event 19 11 ''p'' = Inl ValueError"
    by (simp_all add: set_start_def set_stop_def session_create_event_def)
  note a = public_methods_bypass_undo_history
             [of 0 example_widgets "''e1''" 11 19 example_history "''p''" "''A''" "''e3''"]
  note b = public_methods_bypass_undo_history
             [of 0 example_widgets "''e1''" 30 40 example_history "''p''" "''A''" "''e3''"]
  note c = public_methods_bypass_undo_history
             [of 0 example_widgets "''e1''" 19 11 example_history "''p''" "''A''" "''e3''"]
  have ok: "\<exists>g'. update_event_range (Suc 0) example_widgets ''e1'' 11 19 example_history = Returns g'
          \<and> notified g' = [(''changed'', Event, [''e1''])]
          \<and> store g' ''e1'' = Some \<lparr>entity_type = Event, removed = False, start = 11, stop = 19, author = ''p'', events = []\<rparr>
          \<and> undo g' = undo example_history"
    using a s1 by (auto simp add: f example_facts)
  have first: "update_event_range (Suc 0) example_widgets ''e1'' 30 40 example_history = Raises ValueError example_history"
    using b s1 by (simp add: f example_facts)
  have second: "update_event_range (Suc 0) example_widgets ''e1'' 19 11 example_history
        = Raises ValueError (example_history\<lparr>store := (store example_history)(''e1'' \<mapsto> \<lparr>entity_type = Event, removed = False, start = 19, stop = 20, author = ''p'', events = []\<rparr>)\<rparr>)"
    using c s1 by (simp add: f example_facts)
  have created: "\<exists>g'. create_event (Suc 0) example_widgets 11 19 ''p'' ''A'' ''e3'' example_history = Returns g'
          \<and> notified g' = [(''inserted'', Event, [''e3''])]
          \<and> store g' ''e3'' = Some \<lparr>entity_type = Event, removed = False, start = 11, stop = 19, author = ''p'', events = []\<rparr>
          \<and> store g' ''A'' = Some \<lparr>entity_type = Catalogue, removed = False, start = 0, stop = 0, author = ''p'', events = [''e1'', ''e2'', ''e3'']\<rparr>
          \<and> undo g' = undo example_history"
    using a s1 by (auto simp add: f example_facts)
  have refused: "create_event (Suc 0) example_widgets 19 11 ''p'' ''A'' ''e3'' example_history = Raises ValueError example_history"
    using c s1 by (simp add: f example_facts)
  have trashed: "\<exists>g'. state_of (move_to_trash (Suc 0) example_widgets ''e1'' example_history) = Some g'
          \<and> undo g' = undo example_history
          \<and> notified g' = [(''moved'', Event, [''e1''])]
          \<and> store g' ''e1'' = Some \<lparr>entity_type = Event, removed = True, start = 10, stop = 20, author = ''p'', events = []\<rparr>"
    using a by (auto simp add: f example_facts)
  show ?thesis
    using ok first second created refused trashed s1 by (simp add: f example_facts)
qed

end
